theory Spec2Isabelle
  imports Main "HOL-Library.AList"
begin

section \<open>Data model of \<open>jedi/evaluate/param.py\<close>\<close>

text \<open>
  Contexts and evaluators are opaque handles for this module: it only stores them and
  passes them on.
\<close>

type_synonym context_id = nat
type_synonym evaluator_id = nat

text \<open>
  A node of the syntax tree, as far as this module reads it: its \<open>type\<close> and its
  \<open>parent\<close>, which is \<open>None\<close> for the root of a tree.
\<close>

datatype syntax_node =
  SyntaxNode (node_type: string) (node_id: nat) (node_parent: "syntax_node option")

text \<open>
  The three lazy contexts the module imports, and the values a \<open>LazyKnownContext\<close>
  wraps: the two containers the module builds itself (\<open>iterable.FakeSequence\<close>,
  \<open>iterable.FakeDict\<close>) and any other value that a caller built.
  A Python \<open>dict\<close> is an association list in insertion order with distinct keys.
\<close>

datatype lazy_context =
    LazyKnownContext context_value
  | LazyTreeContext context_id syntax_node
  | LazyUnknownContext
and context_value =
    FakeSequence evaluator_id string "lazy_context list"
  | FakeDict evaluator_id "(string \<times> lazy_context) list"
  | OtherValue nat

text \<open>
  A parameter node of a function definition: \<open>param.name.value\<close>,
  \<open>param.star_count\<close> and \<open>param.default\<close>.
\<close>

record param =
  param_name :: string
  star_count :: nat
  param_default :: "syntax_node option"

record funcdef =
  funcdef_name :: string
  get_params :: "param list"

text \<open>
  The execution context: \<open>evaluator\<close>, \<open>tree_node\<close>, \<open>parent_context\<close> and the
  result of \<open>function_context.get_default_param_context()\<close>.
\<close>

record execution_context =
  evaluator :: evaluator_id
  tree_node :: funcdef
  parent_context :: context_id
  get_default_param_context :: context_id

text \<open>
  The arguments object \<open>var_args\<close>: what \<open>unpack(funcdef)\<close> yields, pairs of an
  optional key and a lazy context, and what \<open>get_calling_nodes()\<close> returns.
\<close>

record arguments =
  unpack :: "funcdef \<Rightarrow> (string option \<times> lazy_context) list"
  get_calling_nodes :: "syntax_node list"

record executed_param =
  ep_execution_context :: execution_context
  ep_param_node :: param
  ep_lazy_context :: lazy_context
  string_name :: string

definition ExecutedParam :: "execution_context \<Rightarrow> param \<Rightarrow> lazy_context \<Rightarrow> executed_param" where
  "ExecutedParam execution_context param_node lazy_context =
     \<lparr>ep_execution_context = execution_context, ep_param_node = param_node,
      ep_lazy_context = lazy_context, string_name = param_name param_node\<rparr>"

text \<open>
  Every call \<open>analysis.add(context, error_name, node, message)\<close> is recorded as one
  issue; a function that reports issues returns the list of the issues it added, in the
  order of the calls.
\<close>

record issue =
  issue_context :: context_id
  error_name :: string
  issue_node :: syntax_node
  issue_message :: string

definition analysis_add :: "context_id \<Rightarrow> string \<Rightarrow> syntax_node \<Rightarrow> string \<Rightarrow> issue" where
  "analysis_add node_context name node message =
     \<lparr>issue_context = node_context, error_name = name, issue_node = node,
      issue_message = message\<rparr>"

datatype py_error = AttributeError

section \<open>Messages\<close>

fun str_nat :: "nat \<Rightarrow> string" where
  "str_nat n =
     (if n < 10 then [char_of (48 + n)]
      else str_nat (n div 10) @ [char_of (48 + n mod 10)])"

declare str_nat.simps [simp del]

text \<open>\<open>_error_argument_count\<close>: a parameter node is true, a missing default is not.\<close>

definition error_argument_count :: "funcdef \<Rightarrow> nat \<Rightarrow> string" where
  "error_argument_count funcdef actual_count =
     (let params = get_params funcdef;
          default_arguments =
            length (filter (\<lambda>p. param_default p \<noteq> None \<or> star_count p \<noteq> 0) params);
          before =
            (if default_arguments = 0 then ''exactly ''
             else ''from '' @ str_nat (length params - default_arguments) @ '' to '')
      in ''TypeError: '' @ funcdef_name funcdef @ ''() takes '' @ before
           @ str_nat (length params) @ '' arguments ('' @ str_nat actual_count @ '' given).'')"

definition multiple_values_message :: "funcdef \<Rightarrow> string \<Rightarrow> string" where
  "multiple_values_message funcdef key =
     ''TypeError: '' @ funcdef_name funcdef
       @ ''() got multiple values for keyword argument '' @ [CHR 0x27] @ key @ [CHR 0x27] @ ''.''"

definition unexpected_keyword_message :: "funcdef \<Rightarrow> string \<Rightarrow> string" where
  "unexpected_keyword_message funcdef key =
     ''TypeError: '' @ funcdef_name funcdef
       @ ''() got an unexpected keyword argument '' @ [CHR 0x27] @ key @ [CHR 0x27] @ ''.''"

section \<open>\<open>_add_argument_issue\<close>\<close>

text \<open>
  Only a \<open>LazyTreeContext\<close> is reported. Its node is replaced by its parent when the
  parent is an \<open>argument\<close> node; reading \<open>node.parent.type\<close> of a node without
  parent raises.
\<close>

definition add_argument_issue ::
  "context_id \<Rightarrow> string \<Rightarrow> lazy_context \<Rightarrow> string \<Rightarrow> py_error + issue list" where
  "add_argument_issue parent_ctx name lazy message =
     (case lazy of
        LazyTreeContext c node \<Rightarrow>
          (case node_parent node of
             None \<Rightarrow> Inl AttributeError
           | Some parent \<Rightarrow>
               Inr [analysis_add parent_ctx name
                      (if node_type parent = ''argument'' then parent else node) message])
      | _ \<Rightarrow> Inr [])"

section \<open>The binder \<open>get_executed_params\<close>\<close>

text \<open>
  The local variables of the function that the loop over the parameters changes.
  \<open>var_arg_iterator\<close> is the \<open>PushBackIterator\<close>: the items not yet taken, a pushed
  back item in front. \<open>analysis\<close> holds the issues added so far.
\<close>

record binder_state =
  result_params :: "executed_param list"
  var_arg_iterator :: "(string option \<times> lazy_context) list"
  non_matching_keys :: "(string \<times> lazy_context) list"
  keys_used :: "(string \<times> executed_param) list"
  keys_only :: bool
  had_multiple_value_error :: bool
  analysis :: "issue list"

text \<open>\<open>param_dict\<close>: a later parameter of the same name replaces an earlier one.\<close>

definition make_param_dict :: "param list \<Rightarrow> (string \<times> param) list" where
  "make_param_dict params = foldl (\<lambda>d p. AList.update (param_name p) p d) [] params"

text \<open>The body of the loop \<open>while key is not None\<close>, for one named item.\<close>

definition key_step ::
  "execution_context \<Rightarrow> arguments \<Rightarrow> (string \<times> param) list \<Rightarrow> string \<Rightarrow> lazy_context
     \<Rightarrow> binder_state \<Rightarrow> binder_state" where
  "key_step ec var_args param_dict key argument st =
     (let st = st\<lparr>keys_only := True\<rparr> in
      case map_of param_dict key of
        None \<Rightarrow> st\<lparr>non_matching_keys := AList.update key argument (non_matching_keys st)\<rparr>
      | Some key_param \<Rightarrow>
          (if map_of (keys_used st) key \<noteq> None then
             st\<lparr>had_multiple_value_error := True,
                analysis := analysis st @
                  map (\<lambda>node. analysis_add (get_default_param_context ec)
                         ''type-error-multiple-values'' node
                         (multiple_values_message (tree_node ec) key))
                      (get_calling_nodes var_args)\<rparr>
           else
             st\<lparr>keys_used :=
                  AList.update key (ExecutedParam ec key_param argument) (keys_used st)\<rparr>))"

text \<open>
  \<open>key, argument = next(var_arg_iterator, (None, None))\<close> followed by the
  \<open>while\<close> loop, on the items of the iterator: the result is the final \<open>argument\<close>
  (\<open>None\<close> when the iterator ran out) and the state, whose iterator holds the items
  after the unnamed one that ended the loop.
\<close>

fun keyword_loop ::
  "execution_context \<Rightarrow> arguments \<Rightarrow> (string \<times> param) list
     \<Rightarrow> (string option \<times> lazy_context) list \<Rightarrow> binder_state
     \<Rightarrow> lazy_context option \<times> binder_state" where
  "keyword_loop ec var_args param_dict [] st = (None, st\<lparr>var_arg_iterator := []\<rparr>)"
| "keyword_loop ec var_args param_dict ((None, argument) # rest) st =
     (Some argument, st\<lparr>var_arg_iterator := rest\<rparr>)"
| "keyword_loop ec var_args param_dict ((Some key, argument) # rest) st =
     keyword_loop ec var_args param_dict rest (key_step ec var_args param_dict key argument st)"

text \<open>
  The loop \<open>for key, argument in var_arg_iterator\<close> of a \<open>*args\<close> parameter: it
  stops at the first item whose key is true (neither \<open>None\<close> nor the empty string) and
  pushes that item back. The result is the collected list and the iterator left.
\<close>

fun star_loop ::
  "(string option \<times> lazy_context) list
     \<Rightarrow> lazy_context list \<times> (string option \<times> lazy_context) list" where
  "star_loop [] = ([], [])"
| "star_loop ((key, argument) # rest) =
     (if key \<noteq> None \<and> key \<noteq> Some [] then ([], (key, argument) # rest)
      else (case star_loop rest of (collected, left) \<Rightarrow> (argument # collected, left)))"

text \<open>The branches on \<open>param.star_count\<close>: the \<open>result_arg\<close> and the state.\<close>

definition make_result_arg ::
  "execution_context \<Rightarrow> arguments \<Rightarrow> nat \<Rightarrow> param \<Rightarrow> lazy_context option \<Rightarrow> binder_state
     \<Rightarrow> lazy_context \<times> binder_state" where
  "make_result_arg ec var_args actual_count param argument st =
     (if star_count param = 1 then
        (case argument of
           None \<Rightarrow> (LazyKnownContext (FakeSequence (evaluator ec) ''tuple'' []), st)
         | Some a \<Rightarrow>
             (case star_loop (var_arg_iterator st) of
                (collected, left) \<Rightarrow>
                  (LazyKnownContext (FakeSequence (evaluator ec) ''tuple'' (a # collected)),
                   st\<lparr>var_arg_iterator := left\<rparr>)))
      else if star_count param = 2 then
        (LazyKnownContext (FakeDict (evaluator ec) (non_matching_keys st)),
         st\<lparr>non_matching_keys := []\<rparr>)
      else
        (case argument of
           None \<Rightarrow>
             (case param_default param of
                None \<Rightarrow>
                  (LazyUnknownContext,
                   if \<not> keys_only st then
                     st\<lparr>analysis := analysis st @
                          map (\<lambda>node. analysis_add (get_default_param_context ec)
                                 ''type-error-too-few-arguments'' node
                                 (error_argument_count (tree_node ec) actual_count))
                              (get_calling_nodes var_args)\<rparr>
                   else st)
              | Some d \<Rightarrow> (LazyTreeContext (get_default_param_context ec) d, st))
         | Some a \<Rightarrow> (a, st)))"

text \<open>One pass of the loop \<open>for param in funcdef.get_params()\<close>.\<close>

definition bind_param ::
  "execution_context \<Rightarrow> arguments \<Rightarrow> (string \<times> param) list \<Rightarrow> nat \<Rightarrow> param \<Rightarrow> binder_state
     \<Rightarrow> binder_state" where
  "bind_param ec var_args param_dict actual_count param st =
     (case keyword_loop ec var_args param_dict (var_arg_iterator st) st of
        (argument, st1) \<Rightarrow>
          (case map_of (keys_used st1) (param_name param) of
             Some bound \<Rightarrow> st1\<lparr>result_params := result_params st1 @ [bound]\<rparr>
           | None \<Rightarrow>
               (case make_result_arg ec var_args actual_count param argument st1 of
                  (result_arg, st2) \<Rightarrow>
                    (let new = ExecutedParam ec param result_arg;
                         st3 = st2\<lparr>result_params := result_params st2 @ [new]\<rparr>
                     in if result_arg \<noteq> LazyUnknownContext then
                          st3\<lparr>keys_used := AList.update (param_name param) new (keys_used st3)\<rparr>
                        else st3))))"

fun param_loop ::
  "execution_context \<Rightarrow> arguments \<Rightarrow> (string \<times> param) list \<Rightarrow> nat \<Rightarrow> param list
     \<Rightarrow> binder_state \<Rightarrow> binder_state" where
  "param_loop ec var_args param_dict actual_count [] st = st"
| "param_loop ec var_args param_dict actual_count (param # params) st =
     param_loop ec var_args param_dict actual_count params
       (bind_param ec var_args param_dict actual_count param st)"

definition initial_state :: "(string option \<times> lazy_context) list \<Rightarrow> binder_state" where
  "initial_state unpacked_va =
     \<lparr>result_params = [], var_arg_iterator = unpacked_va, non_matching_keys = [],
      keys_used = [], keys_only = False, had_multiple_value_error = False, analysis = []\<rparr>"

text \<open>The state when the loop over the parameters is left.\<close>

definition binder_loop :: "execution_context \<Rightarrow> arguments \<Rightarrow> binder_state" where
  "binder_loop ec var_args =
     (let funcdef = tree_node ec;
          unpacked_va = unpack var_args funcdef
      in param_loop ec var_args (make_param_dict (get_params funcdef)) (length unpacked_va)
           (get_params funcdef) (initial_state unpacked_va))"

text \<open>
  The block \<open>if keys_only\<close>: the loop runs over the names of \<open>param_dict\<close> that are
  not in \<open>keys_used\<close>, here as the entries of \<open>param_dict\<close> (each name with
  \<open>param_dict[k]\<close>). The order in which Python visits the set does not show: every
  issue added here is the same for all names.
\<close>

definition too_few_issues ::
  "execution_context \<Rightarrow> arguments \<Rightarrow> (string \<times> param) list \<Rightarrow> nat \<Rightarrow> binder_state
     \<Rightarrow> issue list" where
  "too_few_issues ec var_args param_dict actual_count st =
     (if keys_only st then
        concat (map (\<lambda>(k, param).
                  if \<not> (non_matching_keys st \<noteq> [] \<or> had_multiple_value_error st
                         \<or> star_count param \<noteq> 0 \<or> param_default param \<noteq> None)
                  then map (\<lambda>node. analysis_add (get_default_param_context ec)
                              ''type-error-too-few-arguments'' node
                              (error_argument_count (tree_node ec) actual_count))
                           (get_calling_nodes var_args)
                  else [])
                (filter (\<lambda>(k, param). map_of (keys_used st) k = None) param_dict))
      else [])"

text \<open>The loop \<open>for key, lazy_context in non_matching_keys.items()\<close>.\<close>

fun unexpected_keyword_issues ::
  "execution_context \<Rightarrow> (string \<times> lazy_context) list \<Rightarrow> py_error + issue list" where
  "unexpected_keyword_issues ec [] = Inr []"
| "unexpected_keyword_issues ec ((key, lazy) # items) =
     (case add_argument_issue (get_default_param_context ec) ''type-error-keyword-argument''
             lazy (unexpected_keyword_message (tree_node ec) key) of
        Inl e \<Rightarrow> Inl e
      | Inr added \<Rightarrow>
          (case unexpected_keyword_issues ec items of
             Inl e \<Rightarrow> Inl e
           | Inr later \<Rightarrow> Inr (added @ later)))"

text \<open>The block \<open>if remaining_arguments\<close>.\<close>

definition too_many_issues ::
  "execution_context \<Rightarrow> arguments \<Rightarrow> nat \<Rightarrow> (string option \<times> lazy_context) list
     \<Rightarrow> py_error + issue list" where
  "too_many_issues ec var_args actual_count remaining_arguments =
     (case remaining_arguments of
        [] \<Rightarrow> Inr []
      | (first_key, lazy) # _ \<Rightarrow>
          (if get_calling_nodes var_args \<noteq> [] then
             add_argument_issue (get_default_param_context ec) ''type-error-too-many-arguments''
               lazy (error_argument_count (tree_node ec) actual_count)
           else Inr []))"

text \<open>
  \<open>get_executed_params\<close> returns \<open>result_params\<close>; the model returns with it the
  issues the call added, or the exception that ended it.
\<close>

definition get_executed_params ::
  "execution_context \<Rightarrow> arguments \<Rightarrow> py_error + (executed_param list \<times> issue list)" where
  "get_executed_params ec var_args =
     (let funcdef = tree_node ec;
          param_dict = make_param_dict (get_params funcdef);
          actual_count = length (unpack var_args funcdef);
          st = binder_loop ec var_args
      in case unexpected_keyword_issues ec (non_matching_keys st) of
           Inl e \<Rightarrow> Inl e
         | Inr unexpected \<Rightarrow>
             (case too_many_issues ec var_args actual_count (var_arg_iterator st) of
                Inl e \<Rightarrow> Inl e
              | Inr too_many \<Rightarrow>
                  Inr (result_params st,
                       analysis st @ too_few_issues ec var_args param_dict actual_count st
                         @ unexpected @ too_many)))"

section \<open>\<open>create_default_params\<close>\<close>

definition create_default_param :: "execution_context \<Rightarrow> param \<Rightarrow> executed_param" where
  "create_default_param ec param =
     (let result_arg =
            (if star_count param = 1 then
               LazyKnownContext (FakeSequence (evaluator ec) ''tuple'' [])
             else if star_count param = 2 then
               LazyKnownContext (FakeDict (evaluator ec) [])
             else (case param_default param of
                     None \<Rightarrow> LazyUnknownContext
                   | Some d \<Rightarrow> LazyTreeContext (parent_context ec) d))
      in ExecutedParam ec param result_arg)"

text \<open>No call of \<open>analysis.add\<close> is made here: the list of added issues is empty.\<close>

definition create_default_params ::
  "execution_context \<Rightarrow> funcdef \<Rightarrow> executed_param list \<times> issue list" where
  "create_default_params ec funcdef = (map (create_default_param ec) (get_params funcdef), [])"

section \<open>\<open>ExecutedParam.matches_signature\<close>\<close>

text \<open>
  The collaborators of \<open>ExecutedParam\<close> are parameters of the model: forcing a lazy
  context (\<open>infer\<close>), the class of a value (\<open>py__class__\<close>), the annotation of a
  parameter (\<open>pep0484.infer_param\<close>) and its execution, the docstring of a parameter
  (\<open>docstrings.infer_param\<close>) and the subclass test. A \<open>ContextSet\<close> is a set.
\<close>

record 'v inference =
  lazy_infer :: "lazy_context \<Rightarrow> 'v set"
  py_class :: "'v \<Rightarrow> 'v"
  pep0484_infer_param :: "execution_context \<Rightarrow> param \<Rightarrow> 'v set"
  execute_annotation :: "'v \<Rightarrow> 'v set"
  docstrings_infer_param :: "execution_context \<Rightarrow> param \<Rightarrow> 'v set"
  is_sub_class_of :: "'v \<Rightarrow> 'v \<Rightarrow> bool"

definition infer_annotations :: "'v inference \<Rightarrow> executed_param \<Rightarrow> 'v set" where
  "infer_annotations env self = pep0484_infer_param env (ep_execution_context self) (ep_param_node self)"

definition infer :: "'v inference \<Rightarrow> executed_param \<Rightarrow> bool \<Rightarrow> 'v set" where
  "infer env self use_hints =
     (let doc_params = docstrings_infer_param env (ep_execution_context self) (ep_param_node self);
          ann = (\<Union>a \<in> infer_annotations env self. execute_annotation env a)
      in if use_hints \<and> (ann \<noteq> {} \<or> doc_params \<noteq> {}) then ann \<union> doc_params
         else lazy_infer env (ep_lazy_context self))"

definition matches_signature :: "'v inference \<Rightarrow> executed_param \<Rightarrow> bool" where
  "matches_signature env self =
     (let argument_contexts = py_class env ` infer env self False in
      if star_count (ep_param_node self) \<noteq> 0 then True
      else let annotations = infer_annotations env self in
        if annotations = {} then True
        else (\<exists>c1 \<in> argument_contexts. \<exists>c2 \<in> annotations. is_sub_class_of env c1 c2))"

section \<open>States of the loop\<close>

text \<open>
  The state of \<open>get_executed_params\<close> when the loop has passed the parameters
  \<open>passed\<close>, the first ones of the function; and the first statements of a pass from
  a state: taking the next item and running the \<open>while\<close> loop.
\<close>

definition loop_state :: "execution_context \<Rightarrow> arguments \<Rightarrow> param list \<Rightarrow> binder_state" where
  "loop_state ec var_args passed =
     param_loop ec var_args (make_param_dict (get_params (tree_node ec)))
       (length (unpack var_args (tree_node ec))) passed
       (initial_state (unpack var_args (tree_node ec)))"

definition take_argument ::
  "execution_context \<Rightarrow> arguments \<Rightarrow> binder_state \<Rightarrow> lazy_context option \<times> binder_state" where
  "take_argument ec var_args st =
     keyword_loop ec var_args (make_param_dict (get_params (tree_node ec))) (var_arg_iterator st) st"

section \<open>Invariants of the loop over the parameters\<close>

text \<open>
  Every entry of \<open>param_dict\<close> is stored under the name of its parameter, and, when
  no two parameters share a name, every parameter is the entry of its name.
\<close>

definition param_dict_named :: "(string \<times> param) list \<Rightarrow> bool" where
  "param_dict_named pd \<longleftrightarrow> (\<forall>k p. map_of pd k = Some p \<longrightarrow> param_name p = k)"

definition param_dict_holds :: "(string \<times> param) list \<Rightarrow> param list \<Rightarrow> bool" where
  "param_dict_holds pd ps \<longleftrightarrow> (\<forall>p \<in> set ps. map_of pd (param_name p) = Some p)"

text \<open>
  Every entry of \<open>keys_used\<close> is stored under its \<open>string_name\<close>, and its
  parameter node is the entry of \<open>param_dict\<close> for that name.
\<close>

definition keys_used_named :: "binder_state \<Rightarrow> bool" where
  "keys_used_named st \<longleftrightarrow> (\<forall>k bound. map_of (keys_used st) k = Some bound \<longrightarrow> string_name bound = k)"

definition keys_used_nodes :: "(string \<times> param) list \<Rightarrow> binder_state \<Rightarrow> bool" where
  "keys_used_nodes pd st \<longleftrightarrow>
     (\<forall>k bound. map_of (keys_used st) k = Some bound \<longrightarrow> map_of pd k = Some (ep_param_node bound))"

text \<open>
  The node of a \<open>LazyTreeContext\<close> has a parent: it is an expression of an
  argument list, not the root of a tree. The items still in the iterator and the values
  of \<open>non_matching_keys\<close> are among the items of the call.
\<close>

definition has_parent :: "lazy_context \<Rightarrow> bool" where
  "has_parent lazy = (case lazy of LazyTreeContext c node \<Rightarrow> node_parent node \<noteq> None | _ \<Rightarrow> True)"

definition items_in_tree :: "binder_state \<Rightarrow> bool" where
  "items_in_tree st \<longleftrightarrow>
     (\<forall>x \<in> set (var_arg_iterator st). has_parent (snd x)) \<and>
     (\<forall>x \<in> set (non_matching_keys st). has_parent (snd x))"

section \<open>Counting issues\<close>

definition count_issues :: "string \<Rightarrow> issue list \<Rightarrow> nat" where
  "count_issues name issues = length (filter (\<lambda>i. error_name i = name) issues)"

section \<open>Invariants of the issues\<close>

text \<open>
  The issues the loop adds are \<open>type-error-multiple-values\<close> issues and
  \<open>type-error-too-few-arguments\<close> issues with the message of
  \<open>_error_argument_count\<close>. The loop adds at most one issue of the second kind per
  parameter and calling node, and none once \<open>keys_only\<close> is set or while items are
  left in the iterator.
\<close>

definition loop_issues :: "execution_context \<Rightarrow> nat \<Rightarrow> issue list \<Rightarrow> bool" where
  "loop_issues ec n issues \<longleftrightarrow>
     (\<forall>i \<in> set issues.
        error_name i = ''type-error-multiple-values'' \<or>
        (error_name i = ''type-error-too-few-arguments'' \<and>
         issue_message i = error_argument_count (tree_node ec) n))"


section \<open>Where the bindings come from\<close>

text \<open>
  The value an executed parameter holds is the value of an item of the call, or what
  the branch of its parameter builds without an item: a known tuple for one star, a
  known dict for two stars, otherwise the default of the parameter in the context of
  the defaults, and \<open>LazyUnknownContext\<close> when there is no default. This holds for
  the entries of \<open>result_params\<close> and of \<open>keys_used\<close>, and the iterator holds
  items of the call only.
\<close>

definition bound_from ::
  "execution_context \<Rightarrow> (string option \<times> lazy_context) list \<Rightarrow> executed_param \<Rightarrow> bool" where
  "bound_from ec items bound \<longleftrightarrow>
     ep_lazy_context bound \<in> snd ` set items \<or>
     (if star_count (ep_param_node bound) = 1 then
        (\<exists>collected. ep_lazy_context bound =
           LazyKnownContext (FakeSequence (evaluator ec) ''tuple'' collected))
      else if star_count (ep_param_node bound) = 2 then
        (\<exists>dct. ep_lazy_context bound = LazyKnownContext (FakeDict (evaluator ec) dct))
      else ep_lazy_context bound =
             (case param_default (ep_param_node bound) of
                Some d \<Rightarrow> LazyTreeContext (get_default_param_context ec) d
              | None \<Rightarrow> LazyUnknownContext))"

definition bindings_from ::
  "execution_context \<Rightarrow> (string option \<times> lazy_context) list \<Rightarrow> binder_state \<Rightarrow> bool" where
  "bindings_from ec items st \<longleftrightarrow>
     set (var_arg_iterator st) \<subseteq> set items \<and>
     (\<forall>b \<in> set (result_params st). bound_from ec items b) \<and>
     (\<forall>b \<in> snd ` set (keys_used st). bound_from ec items b)"

section \<open>Example calls\<close>

text \<open>
  A function \<open>f\<close> with given parameters, and a call of it with given items whose
  trailer is the one calling node. \<open>positional n\<close> is the number \<open>n\<close> in the
  argument list, \<open>keyword k n\<close> the argument \<open>k=n\<close>.
\<close>

definition required_param :: "string \<Rightarrow> param" where
  "required_param n = \<lparr>param_name = n, star_count = 0, param_default = None\<rparr>"

definition default_param :: "string \<Rightarrow> syntax_node \<Rightarrow> param" where
  "default_param n d = \<lparr>param_name = n, star_count = 0, param_default = Some d\<rparr>"

definition star_param :: "string \<Rightarrow> nat \<Rightarrow> param" where
  "star_param n k = \<lparr>param_name = n, star_count = k, param_default = None\<rparr>"

definition module_node :: syntax_node where
  "module_node = SyntaxNode ''file_input'' 0 None"

definition call_node :: syntax_node where
  "call_node = SyntaxNode ''trailer'' 1 (Some module_node)"

definition arglist_node :: syntax_node where
  "arglist_node = SyntaxNode ''arglist'' 2 (Some call_node)"

definition number_node :: "nat \<Rightarrow> syntax_node" where
  "number_node n = SyntaxNode ''number'' n (Some arglist_node)"

definition argument_node :: "nat \<Rightarrow> syntax_node" where
  "argument_node n = SyntaxNode ''argument'' (100 + n) (Some arglist_node)"

definition positional :: "nat \<Rightarrow> string option \<times> lazy_context" where
  "positional n = (None, LazyTreeContext 7 (number_node n))"

definition keyword :: "string \<Rightarrow> nat \<Rightarrow> string option \<times> lazy_context" where
  "keyword k n = (Some k, LazyTreeContext 7 (SyntaxNode ''number'' n (Some (argument_node n))))"

definition function_f :: "param list \<Rightarrow> execution_context" where
  "function_f ps =
     \<lparr>evaluator = 0, tree_node = \<lparr>funcdef_name = ''f'', get_params = ps\<rparr>,
      parent_context = 1, get_default_param_context = 2\<rparr>"

definition call_with :: "(string option \<times> lazy_context) list \<Rightarrow> arguments" where
  "call_with items = \<lparr>unpack = (\<lambda>funcdef. items), get_calling_nodes = [call_node]\<rparr>"

text \<open>
  Collaborators for \<open>matches_signature\<close> over numbers as values: a known value
  infers to \<open>5\<close>, whose class is \<open>15\<close>; only the parameter \<open>x\<close> is annotated, with
  the classes \<open>15\<close> and \<open>20\<close>; a class is a subclass of itself only.
\<close>

definition example_inference :: "nat inference" where
  "example_inference =
     \<lparr>lazy_infer = (\<lambda>l. case l of LazyKnownContext v \<Rightarrow> {5} | _ \<Rightarrow> {}),
      py_class = (\<lambda>v. v + 10),
      pep0484_infer_param = (\<lambda>ec p. if param_name p = ''x'' then {15, 20} else {}),
      execute_annotation = (\<lambda>a. {a}),
      docstrings_infer_param = (\<lambda>ec p. {}),
      is_sub_class_of = (\<lambda>c1 c2. c1 = c2)\<rparr>"

lemmas binder_defs =
  get_executed_params_def binder_loop_def make_param_dict_def initial_state_def
  bind_param_def key_step_def make_result_arg_def too_few_issues_def too_many_issues_def
  add_argument_issue_def Let_def

lemmas example_defs =
  required_param_def default_param_def star_param_def module_node_def call_node_def
  arglist_node_def number_node_def argument_node_def positional_def keyword_def
  function_f_def call_with_def

section \<open>Facts about the loops\<close>

lemma key_step_result_params [simp]:
  "result_params (key_step ec va pd k a st) = result_params st"
  by (simp add: key_step_def Let_def split: option.splits)

lemma key_step_iterator [simp]:
  "var_arg_iterator (key_step ec va pd k a st) = var_arg_iterator st"
  by (simp add: key_step_def Let_def split: option.splits)

lemma key_step_keys_only [simp]: "keys_only (key_step ec va pd k a st)"
  by (simp add: key_step_def Let_def split: option.splits)

lemma keyword_loop_result_params [simp]:
  "result_params (snd (keyword_loop ec va pd xs st)) = result_params st"
  by (induction ec va pd xs st rule: keyword_loop.induct) simp_all


lemma keyword_loop_iterator_subset:
  "set (var_arg_iterator (snd (keyword_loop ec va pd xs st))) \<subseteq> set xs"
  by (induction ec va pd xs st rule: keyword_loop.induct) auto

lemma keyword_loop_argument:
  "fst (keyword_loop ec va pd xs st) = Some a \<Longrightarrow> (None, a) \<in> set xs"
  by (induction ec va pd xs st rule: keyword_loop.induct) auto

lemma star_loop_subset: "set (snd (star_loop xs)) \<subseteq> set xs"
  by (induction xs rule: star_loop.induct) (auto split: prod.splits)

lemma foldl_update_name:
  "\<forall>k p. map_of d k = Some p \<longrightarrow> param_name p = k \<Longrightarrow>
   \<forall>k p. map_of (foldl (\<lambda>d p. AList.update (param_name p) p d) d ps) k = Some p \<longrightarrow> param_name p = k"
proof (induction ps arbitrary: d)
  case Nil
  then show ?case by simp
next
  case (Cons q ps)
  have h: "\<forall>k p. map_of (AList.update (param_name q) q d) k = Some p \<longrightarrow> param_name p = k"
  proof (intro allI impI)
    fix k p assume a: "map_of (AList.update (param_name q) q d) k = Some p"
    show "param_name p = k"
    proof (cases "k = param_name q")
      case True
      with a have "p = q" by (simp add: update_conv')
      with True show ?thesis by simp
    next
      case False
      with a have "map_of d k = Some p" by (simp add: update_conv')
      with Cons.prems show ?thesis by blast
    qed
  qed
  show ?case unfolding foldl_Cons by (rule Cons.IH[OF h])
qed

lemma param_dict_name: "map_of (make_param_dict ps) k = Some p \<Longrightarrow> param_name p = k"
proof -
  have "\<forall>k p. map_of ([] :: (string \<times> param) list) k = Some p \<longrightarrow> param_name p = k" by simp
  from foldl_update_name[OF this, of ps]
  have "map_of (make_param_dict ps) k = Some p \<longrightarrow> param_name p = k"
    unfolding make_param_dict_def by (elim allE)
  then show "map_of (make_param_dict ps) k = Some p \<Longrightarrow> param_name p = k" by (rule mp)
qed

lemma foldl_update_other:
  "k \<notin> param_name ` set ps \<Longrightarrow>
   map_of (foldl (\<lambda>d p. AList.update (param_name p) p d) d ps) k = map_of d k"
  by (induction ps arbitrary: d) (auto simp: update_conv')

lemma foldl_update_distinct:
  "distinct (map param_name ps) \<Longrightarrow> p \<in> set ps \<Longrightarrow>
   map_of (foldl (\<lambda>d p. AList.update (param_name p) p d) d ps) (param_name p) = Some p"
  by (induction ps arbitrary: d) (auto simp: update_conv' foldl_update_other)

lemma param_dict_distinct:
  "distinct (map param_name ps) \<Longrightarrow> p \<in> set ps \<Longrightarrow> map_of (make_param_dict ps) (param_name p) = Some p"
  unfolding make_param_dict_def by (rule foldl_update_distinct)




lemma key_step_named:
  "(\<And>k p. map_of pd k = Some p \<Longrightarrow> param_name p = k) \<Longrightarrow> keys_used_named st \<Longrightarrow>
   keys_used_named (key_step ec va pd k a st)"
  by (auto simp: keys_used_named_def key_step_def Let_def update_conv' ExecutedParam_def
        split: option.splits if_splits)

lemma key_step_nodes:
  "keys_used_nodes pd st \<Longrightarrow> keys_used_nodes pd (key_step ec va pd k a st)"
  by (auto simp: keys_used_nodes_def key_step_def Let_def update_conv' ExecutedParam_def
        split: option.splits if_splits)

lemma keyword_loop_named:
  "(\<And>k p. map_of pd k = Some p \<Longrightarrow> param_name p = k) \<Longrightarrow> keys_used_named st \<Longrightarrow>
   keys_used_named (snd (keyword_loop ec va pd xs st))"
proof (induction ec va pd xs st rule: keyword_loop.induct)
  case (3 ec var_args param_dict key argument rest st)
  then show ?case by (simp add: key_step_named)
qed (simp_all add: keys_used_named_def)

lemma keyword_loop_nodes:
  "keys_used_nodes pd st \<Longrightarrow> keys_used_nodes pd (snd (keyword_loop ec va pd xs st))"
proof (induction ec va pd xs st rule: keyword_loop.induct)
  case (3 ec var_args param_dict key argument rest st)
  then show ?case by (simp add: key_step_nodes)
qed (simp_all add: keys_used_nodes_def)

lemma make_result_arg_keys_used [simp]:
  "keys_used (snd (make_result_arg ec va n p arg st)) = keys_used st"
  by (simp add: make_result_arg_def split: option.splits prod.splits)

lemma make_result_arg_result_params [simp]:
  "result_params (snd (make_result_arg ec va n p arg st)) = result_params st"
  by (simp add: make_result_arg_def split: option.splits prod.splits)

lemma bind_param_result_params:
  "\<exists>bound. result_params (bind_param ec va pd n p st) = result_params st @ [bound] \<and>
     (keys_used_named st \<longrightarrow> (\<forall>k q. map_of pd k = Some q \<longrightarrow> param_name q = k) \<longrightarrow> string_name bound = param_name p) \<and>
     (keys_used_nodes pd st \<longrightarrow> map_of pd (param_name p) = Some p \<longrightarrow> ep_param_node bound = p)"
proof (cases "keyword_loop ec va pd (var_arg_iterator st) st")
  case (Pair argument st1)
  then have st1: "st1 = snd (keyword_loop ec va pd (var_arg_iterator st) st)" by simp
  have rp: "result_params st1 = result_params st" by (simp add: st1)
  show ?thesis
  proof (cases "map_of (keys_used st1) (param_name p)")
    case None
    then show ?thesis using Pair rp
      by (cases "make_result_arg ec va n p argument st1")
         (auto simp: bind_param_def Let_def ExecutedParam_def
            dest: arg_cong[where f="\<lambda>x. result_params (snd x)"])
  next
    case (Some bound)
    have "keys_used_named st \<Longrightarrow> (\<forall>k q. map_of pd k = Some q \<longrightarrow> param_name q = k) \<Longrightarrow> string_name bound = param_name p"
      using keyword_loop_named[of pd st ec va "var_arg_iterator st"] Some st1
      by (auto simp: keys_used_named_def)
    moreover have "keys_used_nodes pd st \<Longrightarrow> map_of pd (param_name p) = Some p \<Longrightarrow> ep_param_node bound = p"
      using keyword_loop_nodes[of pd st ec va "var_arg_iterator st"] Some st1
      by (auto simp: keys_used_nodes_def)
    ultimately show ?thesis using Pair Some rp by (auto simp: bind_param_def)
  qed
qed

lemma bind_param_named:
  assumes pd: "\<And>k q. map_of pd k = Some q \<Longrightarrow> param_name q = k" and "keys_used_named st"
  shows "keys_used_named (bind_param ec va pd n p st)"
proof (cases "keyword_loop ec va pd (var_arg_iterator st) st")
  case (Pair argument st1)
  then have "keys_used_named st1"
    using keyword_loop_named[of pd st ec va "var_arg_iterator st"] assms by auto
  then show ?thesis using Pair
    by (cases "make_result_arg ec va n p argument st1")
       (auto simp: bind_param_def Let_def keys_used_named_def update_conv' ExecutedParam_def
          split: option.splits if_splits dest: arg_cong[where f="\<lambda>x. keys_used (snd x)"])
qed

lemma bind_param_nodes:
  assumes "map_of pd (param_name p) = Some p" and "keys_used_nodes pd st"
  shows "keys_used_nodes pd (bind_param ec va pd n p st)"
proof (cases "keyword_loop ec va pd (var_arg_iterator st) st")
  case (Pair argument st1)
  then have "keys_used_nodes pd st1"
    using keyword_loop_nodes[of pd st ec va "var_arg_iterator st"] assms by auto
  then show ?thesis using Pair assms(1)
    by (cases "make_result_arg ec va n p argument st1")
       (auto simp: bind_param_def Let_def keys_used_nodes_def update_conv' ExecutedParam_def
          split: option.splits if_splits dest: arg_cong[where f="\<lambda>x. keys_used (snd x)"])
qed

lemma param_dict_named_make: "param_dict_named (make_param_dict ps)"
  unfolding param_dict_named_def using param_dict_name by blast

lemma param_dict_holds_make:
  "distinct (map param_name ps) \<Longrightarrow> param_dict_holds (make_param_dict ps) ps"
  unfolding param_dict_holds_def using param_dict_distinct by blast

lemma param_loop_result_params:
  "\<exists>bs. result_params (param_loop ec va pd n ps st) = result_params st @ bs \<and>
     length bs = length ps \<and>
     (keys_used_named st \<longrightarrow> param_dict_named pd \<longrightarrow> map string_name bs = map param_name ps) \<and>
     (keys_used_nodes pd st \<longrightarrow> param_dict_holds pd ps \<longrightarrow> map ep_param_node bs = ps)"
proof (induction ps arbitrary: st)
  case Nil
  show ?case by simp
next
  case (Cons p ps)
  let ?st = "bind_param ec va pd n p st"
  obtain bound where b: "result_params ?st = result_params st @ [bound]"
    and bn: "keys_used_named st \<Longrightarrow> (\<forall>k q. map_of pd k = Some q \<longrightarrow> param_name q = k) \<Longrightarrow>
               string_name bound = param_name p"
    and bp: "keys_used_nodes pd st \<Longrightarrow> map_of pd (param_name p) = Some p \<Longrightarrow> ep_param_node bound = p"
    using bind_param_result_params[of ec va pd n p st] by blast
  obtain bs where r: "result_params (param_loop ec va pd n ps ?st) = result_params ?st @ bs"
    and l: "length bs = length ps"
    and n: "keys_used_named ?st \<Longrightarrow> param_dict_named pd \<Longrightarrow> map string_name bs = map param_name ps"
    and q: "keys_used_nodes pd ?st \<Longrightarrow> param_dict_holds pd ps \<Longrightarrow> map ep_param_node bs = ps"
    using Cons.IH[of ?st] by blast
  have names: "map string_name (bound # bs) = map param_name (p # ps)"
    if "keys_used_named st" "param_dict_named pd"
  proof -
    have pd: "\<And>k q. map_of pd k = Some q \<Longrightarrow> param_name q = k"
      using that(2) unfolding param_dict_named_def by blast
    have "keys_used_named ?st" using bind_param_named[of pd st ec va n p] pd that(1) by blast
    then have "map string_name bs = map param_name ps" using n that(2) by blast
    moreover have "string_name bound = param_name p" using bn that(1) pd by blast
    ultimately show ?thesis by simp
  qed
  have nodes: "map ep_param_node (bound # bs) = p # ps"
    if "keys_used_nodes pd st" "param_dict_holds pd (p # ps)"
  proof -
    have pp: "map_of pd (param_name p) = Some p" and rest: "param_dict_holds pd ps"
      using that(2) unfolding param_dict_holds_def by simp_all
    have "keys_used_nodes pd ?st" using bind_param_nodes[OF pp that(1)] .
    then have "map ep_param_node bs = ps" using q rest by blast
    moreover have "ep_param_node bound = p" using bp that(1) pp by blast
    ultimately show ?thesis by simp
  qed
  have app: "result_params (param_loop ec va pd n (p # ps) st) = result_params st @ (bound # bs)"
    using r b by simp
  have len: "length (bound # bs) = length (p # ps)" using l by simp
  show ?case
    apply (rule exI[of _ "bound # bs"])
    apply (intro conjI impI)
       apply (rule app)
      apply (rule len)
     apply (erule (1) names)
    apply (erule (1) nodes)
    done
qed

lemma set_update_subset: "set (AList.update k v al) \<subseteq> insert (k, v) (set al)"
  by (induction al) auto

lemma key_step_non_matching:
  "has_parent a \<Longrightarrow> \<forall>x \<in> set (non_matching_keys st). has_parent (snd x) \<Longrightarrow>
   \<forall>x \<in> set (non_matching_keys (key_step ec va pd k a st)). has_parent (snd x)"
  using set_update_subset[of k a "non_matching_keys st"]
  by (auto simp: key_step_def Let_def split: option.splits)

lemma keyword_loop_in_tree:
  "\<forall>x \<in> set xs. has_parent (snd x) \<Longrightarrow> \<forall>x \<in> set (non_matching_keys st). has_parent (snd x) \<Longrightarrow>
   items_in_tree (snd (keyword_loop ec va pd xs st))"
proof (induction ec va pd xs st rule: keyword_loop.induct)
  case (3 ec var_args param_dict key argument rest st)
  have "\<forall>x \<in> set (non_matching_keys (key_step ec var_args param_dict key argument st)). has_parent (snd x)"
    using key_step_non_matching[of argument st] 3(2,3) by simp
  then show ?case using 3 by simp
qed (simp_all add: items_in_tree_def)

lemma make_result_arg_in_tree:
  "items_in_tree st \<Longrightarrow> items_in_tree (snd (make_result_arg ec va n p arg st))"
  using star_loop_subset[of "var_arg_iterator st"]
  by (auto simp: make_result_arg_def items_in_tree_def split: option.splits prod.splits)

lemma bind_param_in_tree:
  assumes "items_in_tree st"
  shows "items_in_tree (bind_param ec va pd n p st)"
proof (cases "keyword_loop ec va pd (var_arg_iterator st) st")
  case (Pair argument st1)
  have "items_in_tree (snd (keyword_loop ec va pd (var_arg_iterator st) st))"
    using keyword_loop_in_tree[of "var_arg_iterator st" st] assms by (simp add: items_in_tree_def)
  then have s1: "items_in_tree st1" using Pair by simp
  show ?thesis
  proof (cases "map_of (keys_used st1) (param_name p)")
    case None
    obtain r st2 where m: "make_result_arg ec va n p argument st1 = (r, st2)"
      by (cases "make_result_arg ec va n p argument st1")
    have "items_in_tree st2" using make_result_arg_in_tree[OF s1, of ec va n p argument] m by simp
    then show ?thesis using Pair None m by (simp add: bind_param_def Let_def items_in_tree_def)
  next
    case (Some bound)
    then show ?thesis using Pair s1 by (simp add: bind_param_def items_in_tree_def)
  qed
qed

lemma param_loop_in_tree:
  "items_in_tree st \<Longrightarrow> items_in_tree (param_loop ec va pd n ps st)"
  by (induction ps arbitrary: st) (simp_all add: bind_param_in_tree)

lemma unexpected_keyword_issues_returns:
  "\<forall>x \<in> set items. has_parent (snd x) \<Longrightarrow> \<exists>added. unexpected_keyword_issues ec items = Inr added"
  by (induction items) (auto simp: add_argument_issue_def has_parent_def split: lazy_context.splits)

lemma too_many_issues_returns:
  "\<forall>x \<in> set remaining. has_parent (snd x) \<Longrightarrow> \<exists>added. too_many_issues ec va n remaining = Inr added"
  by (cases remaining) (auto simp: too_many_issues_def add_argument_issue_def has_parent_def split: lazy_context.splits)

lemma initial_state_fields [simp]:
  "result_params (initial_state xs) = []" "var_arg_iterator (initial_state xs) = xs"
  "non_matching_keys (initial_state xs) = []" "keys_used (initial_state xs) = []"
  "keys_only (initial_state xs) = False" "had_multiple_value_error (initial_state xs) = False"
  "analysis (initial_state xs) = []"
  by (simp_all add: initial_state_def)

lemma param_loop_append:
  "param_loop ec va pd n (ps @ qs) st = param_loop ec va pd n qs (param_loop ec va pd n ps st)"
  by (induction ps arbitrary: st) simp_all

lemma loop_state_snoc:
  "loop_state ec va (passed @ [p]) =
     bind_param ec va (make_param_dict (get_params (tree_node ec)))
       (length (unpack va (tree_node ec))) p (loop_state ec va passed)"
  by (simp add: loop_state_def param_loop_append)

lemma binder_loop_loop_state: "binder_loop ec va = loop_state ec va (get_params (tree_node ec))"
  by (simp add: binder_loop_def loop_state_def Let_def)

lemma length_loop_state: "length (result_params (loop_state ec va passed)) = length passed"
  using param_loop_result_params[of ec va "make_param_dict (get_params (tree_node ec))"
      "length (unpack va (tree_node ec))" passed "initial_state (unpack va (tree_node ec))"]
  by (auto simp: loop_state_def)

lemma result_params_nth:
  assumes "get_params (tree_node ec) = passed @ p # rest"
  shows "result_params (binder_loop ec va) ! length passed =
           last (result_params (loop_state ec va (passed @ [p])))"
proof -
  let ?pd = "make_param_dict (get_params (tree_node ec))"
  let ?n = "length (unpack va (tree_node ec))"
  let ?s = "loop_state ec va (passed @ [p])"
  have "loop_state ec va (get_params (tree_node ec)) = loop_state ec va ((passed @ [p]) @ rest)"
    using assms by simp
  also have "\<dots> = param_loop ec va ?pd ?n rest ?s"
    by (simp only: loop_state_def param_loop_append)
  finally have "binder_loop ec va = param_loop ec va ?pd ?n rest ?s"
    by (simp only: binder_loop_loop_state)
  then obtain bs where bs: "result_params (binder_loop ec va) = result_params ?s @ bs"
    using param_loop_result_params[of ec va ?pd ?n rest ?s] by auto
  obtain bound where b: "result_params ?s = result_params (loop_state ec va passed) @ [bound]"
    using bind_param_result_params[of ec va ?pd ?n p "loop_state ec va passed"]
    unfolding loop_state_snoc by blast
  show ?thesis unfolding bs b using length_loop_state[of ec va passed]
    by (simp add: nth_append)
qed

lemma get_executed_params_result:
  "get_executed_params ec va = Inr (result, issues) \<Longrightarrow> result = result_params (binder_loop ec va)"
  by (auto simp: get_executed_params_def Let_def split: sum.splits)

lemma bind_param_bound:
  "keyword_loop ec va pd (var_arg_iterator st) st = (argument, st1) \<Longrightarrow>
   map_of (keys_used st1) (param_name p) = Some bound \<Longrightarrow>
   bind_param ec va pd n p st = st1\<lparr>result_params := result_params st1 @ [bound]\<rparr>"
  by (simp add: bind_param_def)

lemma bind_param_plain_without_argument:
  assumes "keyword_loop ec va pd (var_arg_iterator st) st = (None, st1)"
    and "map_of (keys_used st1) (param_name p) = None"
    and "star_count p \<noteq> 1" and "star_count p \<noteq> 2"
  shows "result_params (bind_param ec va pd n p st) =
           result_params st1 @
             [ExecutedParam ec p
                (case param_default p of
                   Some d \<Rightarrow> LazyTreeContext (get_default_param_context ec) d
                 | None \<Rightarrow> LazyUnknownContext)]"
    and "analysis (bind_param ec va pd n p st) =
           analysis st1 @
             (if param_default p = None \<and> \<not> keys_only st1
              then map (\<lambda>node. analysis_add (get_default_param_context ec)
                          ''type-error-too-few-arguments'' node
                          (error_argument_count (tree_node ec) n))
                     (get_calling_nodes va)
              else [])"
  using assms by (auto simp: bind_param_def make_result_arg_def Let_def split: option.splits)

lemma keyword_loop_named_prefix:
  "\<forall>x \<in> set named. fst x \<noteq> None \<Longrightarrow>
   keyword_loop ec va pd (named @ (None, a) # rest) st =
     (Some a, (snd (keyword_loop ec va pd named st))\<lparr>var_arg_iterator := rest\<rparr>)"
proof (induction named arbitrary: st)
  case Nil
  show ?case by simp
next
  case (Cons x named)
  obtain k l where x: "x = (Some k, l)" using Cons.prems by (cases x) auto
  show ?case using Cons.IH[of "key_step ec va pd k l st"] Cons.prems by (simp add: x)
qed

text \<open>
  A parameter with one or two stars that has no entry in \<open>keys_used\<close> at its turn
  is bound to a known tuple or to the known dict of \<open>non_matching_keys\<close>.
\<close>

lemma star_param_without_keyword:
  assumes "keyword_loop ec va pd (var_arg_iterator st) st = (arg, st1)"
    and "map_of (keys_used st1) (param_name p) = None"
    and "star_count p = 1 \<or> star_count p = 2"
  shows "\<exists>known.
           result_params (bind_param ec va pd n p st) =
             result_params st1 @ [ExecutedParam ec p (LazyKnownContext known)] \<and>
           (star_count p = 1 \<longrightarrow> (\<exists>items. known = FakeSequence (evaluator ec) ''tuple'' items)) \<and>
           (star_count p = 2 \<longrightarrow> known = FakeDict (evaluator ec) (non_matching_keys st1))"
proof (cases "star_count p = 1")
  case True
  then show ?thesis using assms(1,2)
    by (cases arg; cases "star_loop (var_arg_iterator st1)")
       (auto simp: bind_param_def make_result_arg_def Let_def)
next
  case False
  then have "star_count p = 2" using assms(3) by simp
  then show ?thesis using assms(1,2)
    by (simp add: bind_param_def make_result_arg_def Let_def)
qed

section \<open>Facts about the issues\<close>

lemma count_issues_Nil [simp]: "count_issues name [] = 0"
  by (simp add: count_issues_def)

lemma count_issues_append [simp]:
  "count_issues name (xs @ ys) = count_issues name xs + count_issues name ys"
  by (simp add: count_issues_def)

lemma count_issues_added [simp]:
  "count_issues name (map (\<lambda>node. analysis_add c name' node m) nodes) =
     (if name' = name then length nodes else 0)"
  by (induction nodes) (auto simp: count_issues_def analysis_add_def)

lemma loop_issues_Nil [simp]: "loop_issues ec n []"
  by (simp add: loop_issues_def)

lemma loop_issues_append [simp]:
  "loop_issues ec n (xs @ ys) \<longleftrightarrow> loop_issues ec n xs \<and> loop_issues ec n ys"
  by (auto simp: loop_issues_def)

lemma loop_issues_multiple [simp]:
  "loop_issues ec n (map (\<lambda>node. analysis_add c ''type-error-multiple-values'' node m) nodes)"
  by (simp add: loop_issues_def analysis_add_def)

lemma loop_issues_too_few [simp]:
  "loop_issues ec n (map (\<lambda>node. analysis_add c ''type-error-too-few-arguments'' node
                         (error_argument_count (tree_node ec) n)) nodes)"
  by (simp add: loop_issues_def analysis_add_def)

lemma key_step_count_few [simp]:
  "count_issues ''type-error-too-few-arguments'' (analysis (key_step ec va pd k a st)) =
     count_issues ''type-error-too-few-arguments'' (analysis st)"
  by (simp add: key_step_def Let_def split: option.splits)

lemma key_step_loop_issues:
  "loop_issues ec n (analysis st) \<Longrightarrow> loop_issues ec n (analysis (key_step ec va pd k a st))"
  by (simp add: key_step_def Let_def split: option.splits)

lemma keyword_loop_count_few [simp]:
  "count_issues ''type-error-too-few-arguments'' (analysis (snd (keyword_loop ec va pd xs st))) =
     count_issues ''type-error-too-few-arguments'' (analysis st)"
  by (induction ec va pd xs st rule: keyword_loop.induct) simp_all

lemma keyword_loop_loop_issues:
  "loop_issues ec n (analysis st) \<Longrightarrow>
   loop_issues ec n (analysis (snd (keyword_loop ec va pd xs st)))"
  by (induction ec va pd xs st rule: keyword_loop.induct) (simp_all add: key_step_loop_issues)

lemma make_result_arg_analysis:
  "analysis (snd (make_result_arg ec va n p arg st)) =
     analysis st @
       (if star_count p \<noteq> 1 \<and> star_count p \<noteq> 2 \<and> arg = None \<and> param_default p = None \<and>
           \<not> keys_only st
        then map (\<lambda>node. analysis_add (get_default_param_context ec)
                    ''type-error-too-few-arguments'' node
                    (error_argument_count (tree_node ec) n))
               (get_calling_nodes va)
        else [])"
  by (simp add: make_result_arg_def split: option.splits prod.splits)

lemma make_result_arg_keys_only [simp]:
  "keys_only (snd (make_result_arg ec va n p arg st)) = keys_only st"
  by (simp add: make_result_arg_def split: option.splits prod.splits)

lemma make_result_arg_iterator_None [simp]:
  "var_arg_iterator (snd (make_result_arg ec va n p None st)) = var_arg_iterator st"
  by (simp add: make_result_arg_def split: option.splits prod.splits)

lemma bind_param_unfold:
  "keyword_loop ec va pd (var_arg_iterator st) st = (arg, st1) \<Longrightarrow>
   make_result_arg ec va n p arg st1 = (r, st2) \<Longrightarrow>
   bind_param ec va pd n p st =
     (case map_of (keys_used st1) (param_name p) of
        Some bound \<Rightarrow> st1\<lparr>result_params := result_params st1 @ [bound]\<rparr>
      | None \<Rightarrow>
          (if r \<noteq> LazyUnknownContext then
             st2\<lparr>result_params := result_params st2 @ [ExecutedParam ec p r],
                 keys_used := AList.update (param_name p) (ExecutedParam ec p r) (keys_used st2)\<rparr>
           else st2\<lparr>result_params := result_params st2 @ [ExecutedParam ec p r]\<rparr>))"
  by (cases "map_of (keys_used st1) (param_name p)") (simp_all add: bind_param_def Let_def)

lemma bind_param_fields:
  assumes "keyword_loop ec va pd (var_arg_iterator st) st = (arg, st1)"
  shows "keys_only (bind_param ec va pd n p st) = keys_only st1"
    and "analysis (bind_param ec va pd n p st) =
           analysis st1 @
             (if map_of (keys_used st1) (param_name p) = None \<and>
                 star_count p \<noteq> 1 \<and> star_count p \<noteq> 2 \<and> arg = None \<and>
                 param_default p = None \<and> \<not> keys_only st1
              then map (\<lambda>node. analysis_add (get_default_param_context ec)
                          ''type-error-too-few-arguments'' node
                          (error_argument_count (tree_node ec) n))
                     (get_calling_nodes va)
              else [])"
    and "arg = None \<Longrightarrow> var_arg_iterator (bind_param ec va pd n p st) = var_arg_iterator st1"
proof -
  obtain r st2 where m: "make_result_arg ec va n p arg st1 = (r, st2)"
    by (cases "make_result_arg ec va n p arg st1")
  have k: "keys_only st2 = keys_only st1"
    using make_result_arg_keys_only[of ec va n p arg st1] m by simp
  have a: "analysis st2 = analysis st1 @
       (if star_count p \<noteq> 1 \<and> star_count p \<noteq> 2 \<and> arg = None \<and> param_default p = None \<and>
           \<not> keys_only st1
        then map (\<lambda>node. analysis_add (get_default_param_context ec)
                    ''type-error-too-few-arguments'' node
                    (error_argument_count (tree_node ec) n))
               (get_calling_nodes va)
        else [])"
    using make_result_arg_analysis[of ec va n p arg st1] m by simp
  have i: "var_arg_iterator st2 = var_arg_iterator st1" if "arg = None"
  proof -
    have "var_arg_iterator (snd (make_result_arg ec va n p arg st1)) = var_arg_iterator st1"
      unfolding that by (rule make_result_arg_iterator_None)
    then show ?thesis unfolding m by simp
  qed
  note u = bind_param_unfold[OF assms m]
  show "keys_only (bind_param ec va pd n p st) = keys_only st1"
    unfolding u using k by (simp split: option.splits)
  show "analysis (bind_param ec va pd n p st) =
           analysis st1 @
             (if map_of (keys_used st1) (param_name p) = None \<and>
                 star_count p \<noteq> 1 \<and> star_count p \<noteq> 2 \<and> arg = None \<and>
                 param_default p = None \<and> \<not> keys_only st1
              then map (\<lambda>node. analysis_add (get_default_param_context ec)
                          ''type-error-too-few-arguments'' node
                          (error_argument_count (tree_node ec) n))
                     (get_calling_nodes va)
              else [])"
    unfolding u using a by (simp split: option.splits)
  show "arg = None \<Longrightarrow> var_arg_iterator (bind_param ec va pd n p st) = var_arg_iterator st1"
    unfolding u using i by (simp split: option.splits)
qed

lemma bind_param_loop_issues:
  assumes "loop_issues ec n (analysis st)"
  shows "loop_issues ec n (analysis (bind_param ec va pd n p st))"
proof (cases "keyword_loop ec va pd (var_arg_iterator st) st")
  case (Pair arg st1)
  have "loop_issues ec n (analysis st1)"
    using keyword_loop_loop_issues[OF assms, of va pd "var_arg_iterator st"] Pair by simp
  then show ?thesis unfolding bind_param_fields(2)[OF Pair] by simp
qed

lemma param_loop_loop_issues:
  "loop_issues ec n (analysis st) \<Longrightarrow> loop_issues ec n (analysis (param_loop ec va pd n ps st))"
  by (induction ps arbitrary: st) (simp_all add: bind_param_loop_issues)

lemma length_bind_param [simp]:
  "length (result_params (bind_param ec va pd n p st)) = Suc (length (result_params st))"
  using bind_param_result_params[of ec va pd n p st] by auto



lemma get_executed_params_issues:
  "get_executed_params ec va = Inr (result, issues) \<Longrightarrow>
   \<exists>u t. unexpected_keyword_issues ec (non_matching_keys (binder_loop ec va)) = Inr u \<and>
         too_many_issues ec va (length (unpack va (tree_node ec)))
           (var_arg_iterator (binder_loop ec va)) = Inr t \<and>
         issues = analysis (binder_loop ec va) @
                  too_few_issues ec va (make_param_dict (get_params (tree_node ec)))
                    (length (unpack va (tree_node ec))) (binder_loop ec va) @ u @ t"
  by (auto simp: get_executed_params_def Let_def split: sum.splits)

lemma unexpected_keyword_issues_Inr:
  "unexpected_keyword_issues ec items = Inr u \<Longrightarrow>
   u = concat (map (\<lambda>(key, lazy).
         case lazy of
           LazyTreeContext c node \<Rightarrow>
             (case node_parent node of
                Some parent \<Rightarrow>
                  [analysis_add (get_default_param_context ec) ''type-error-keyword-argument''
                     (if node_type parent = ''argument'' then parent else node)
                     (unexpected_keyword_message (tree_node ec) key)]
              | None \<Rightarrow> [])
         | _ \<Rightarrow> []) items)"
proof (induction items arbitrary: u)
  case Nil
  then show ?case by simp
next
  case (Cons x items)
  obtain key lazy where x: "x = (key, lazy)" by (cases x)
  from Cons.prems obtain added later where
    a: "add_argument_issue (get_default_param_context ec) ''type-error-keyword-argument'' lazy
          (unexpected_keyword_message (tree_node ec) key) = Inr added"
    and l: "unexpected_keyword_issues ec items = Inr later" and u: "u = added @ later"
    by (auto simp: x split: sum.splits)
  have "added = (case lazy of
           LazyTreeContext c node \<Rightarrow>
             (case node_parent node of
                Some parent \<Rightarrow>
                  [analysis_add (get_default_param_context ec) ''type-error-keyword-argument''
                     (if node_type parent = ''argument'' then parent else node)
                     (unexpected_keyword_message (tree_node ec) key)]
              | None \<Rightarrow> [])
         | _ \<Rightarrow> [])"
    using a by (auto simp: add_argument_issue_def split: lazy_context.splits option.splits)
  then show ?case using Cons.IH[OF l] u x by simp
qed

lemma unexpected_keyword_issues_names:
  "unexpected_keyword_issues ec items = Inr u \<Longrightarrow>
   \<forall>i \<in> set u. error_name i = ''type-error-keyword-argument''"
proof (induction items arbitrary: u)
  case Nil
  then show ?case by simp
next
  case (Cons x items)
  obtain key lazy where x: "x = (key, lazy)" by (cases x)
  from Cons.prems obtain added later where
    a: "add_argument_issue (get_default_param_context ec) ''type-error-keyword-argument'' lazy
          (unexpected_keyword_message (tree_node ec) key) = Inr added"
    and l: "unexpected_keyword_issues ec items = Inr later" and u: "u = added @ later"
    by (auto simp: x split: sum.splits)
  have "\<forall>i \<in> set added. error_name i = ''type-error-keyword-argument''"
    using a by (auto simp: add_argument_issue_def analysis_add_def
        split: lazy_context.splits option.splits)
  then show ?case using Cons.IH[OF l] u by auto
qed

lemma too_many_issues_Inr:
  "too_many_issues ec va n remaining = Inr t \<Longrightarrow>
   t = (case remaining of
          [] \<Rightarrow> []
        | (first_key, lazy) # left \<Rightarrow>
            if get_calling_nodes va \<noteq> [] then
              (case lazy of
                 LazyTreeContext c node \<Rightarrow>
                   (case node_parent node of
                      Some parent \<Rightarrow>
                        [analysis_add (get_default_param_context ec)
                           ''type-error-too-many-arguments''
                           (if node_type parent = ''argument'' then parent else node)
                           (error_argument_count (tree_node ec) n)]
                    | None \<Rightarrow> [])
               | _ \<Rightarrow> [])
            else [])"
  by (auto simp: too_many_issues_def add_argument_issue_def
      split: list.splits lazy_context.splits option.splits if_splits)

lemma too_many_issues_names:
  "too_many_issues ec va n remaining = Inr t \<Longrightarrow>
   length t \<le> 1 \<and> (\<forall>i \<in> set t. error_name i = ''type-error-too-many-arguments'')"
  by (auto simp: too_many_issues_def add_argument_issue_def analysis_add_def
      split: list.splits lazy_context.splits option.splits if_splits)

lemma too_few_issues_loop_issues: "loop_issues ec n (too_few_issues ec va pd n st)"
  by (auto simp: too_few_issues_def loop_issues_def analysis_add_def split: if_splits)





lemma loop_issues_filter:
  "loop_issues ec n xs \<Longrightarrow> name \<noteq> ''type-error-multiple-values'' \<Longrightarrow>
   name \<noteq> ''type-error-too-few-arguments'' \<Longrightarrow> filter (\<lambda>i. error_name i = name) xs = []"
  by (auto simp: loop_issues_def filter_empty_conv)

lemma names_filter_other:
  "\<forall>i \<in> set xs. error_name i = name' \<Longrightarrow> name \<noteq> name' \<Longrightarrow>
   filter (\<lambda>i. error_name i = name) xs = []"
  by (auto simp: filter_empty_conv)

lemma names_filter_same:
  "\<forall>i \<in> set xs. error_name i = name \<Longrightarrow> filter (\<lambda>i. error_name i = name) xs = xs"
  by (auto simp: filter_id_conv)

lemma binder_loop_loop_issues:
  "loop_issues ec (length (unpack va (tree_node ec))) (analysis (binder_loop ec va))"
  unfolding binder_loop_def Let_def by (rule param_loop_loop_issues) simp




section \<open>Facts about the bindings\<close>

lemma bound_from_item:
  "a \<in> snd ` set items \<Longrightarrow> bound_from ec items (ExecutedParam ec p a)"
  by (simp add: bound_from_def ExecutedParam_def)

lemma key_step_keys_used_from:
  assumes "a \<in> snd ` set items" and "\<forall>b \<in> snd ` set (keys_used st). bound_from ec items b"
  shows "\<forall>b \<in> snd ` set (keys_used (key_step ec va pd k a st)). bound_from ec items b"
proof (cases "map_of pd k")
  case None
  then show ?thesis using assms(2) by (simp add: key_step_def Let_def)
next
  case (Some key_param)
  show ?thesis
  proof (cases "map_of (keys_used st) k")
    case None
    have "set (AList.update k (ExecutedParam ec key_param a) (keys_used st))
            \<subseteq> insert (k, ExecutedParam ec key_param a) (set (keys_used st))"
      by (rule set_update_subset)
    then have "\<forall>b \<in> snd ` set (AList.update k (ExecutedParam ec key_param a) (keys_used st)).
                 bound_from ec items b"
      using assms(2) bound_from_item[OF assms(1), of ec key_param] by auto
    then show ?thesis using Some None by (simp add: key_step_def Let_def)
  next
    case (Some b)
    then show ?thesis using \<open>map_of pd k = Some key_param\<close> assms(2)
      by (simp add: key_step_def Let_def)
  qed
qed

lemma keyword_loop_bindings:
  "set xs \<subseteq> set items \<Longrightarrow>
   \<forall>b \<in> set (result_params st). bound_from ec items b \<Longrightarrow>
   \<forall>b \<in> snd ` set (keys_used st). bound_from ec items b \<Longrightarrow>
   bindings_from ec items (snd (keyword_loop ec va pd xs st))"
proof (induction ec va pd xs st rule: keyword_loop.induct)
  case (1 ec var_args param_dict st)
  then show ?case by (simp add: bindings_from_def)
next
  case (2 ec var_args param_dict argument rest st)
  then show ?case by (simp add: bindings_from_def)
next
  case (3 ec var_args param_dict key argument rest st)
  have a: "argument \<in> snd ` set items" using 3(2) by force
  have "\<forall>b \<in> snd ` set (keys_used (key_step ec var_args param_dict key argument st)).
          bound_from ec items b"
    using a 3(4) by (rule key_step_keys_used_from)
  moreover have "set rest \<subseteq> set items" using 3(2) by simp
  ultimately show ?case using 3(1) 3(3) by simp
qed

lemma make_result_arg_iterator_subset:
  "set (var_arg_iterator (snd (make_result_arg ec va n p arg st))) \<subseteq> set (var_arg_iterator st)"
  using star_loop_subset[of "var_arg_iterator st"]
  by (auto simp: make_result_arg_def split: option.splits prod.splits)

lemma make_result_arg_bound_from:
  assumes "\<And>a. arg = Some a \<Longrightarrow> a \<in> snd ` set items"
  shows "bound_from ec items (ExecutedParam ec p (fst (make_result_arg ec va n p arg st)))"
proof (cases arg)
  case None
  then show ?thesis
    by (simp add: make_result_arg_def bound_from_def ExecutedParam_def split: option.splits)
next
  case (Some a)
  then have "a \<in> snd ` set items" using assms by simp
  then show ?thesis using Some
    by (cases "star_loop (var_arg_iterator st)")
       (simp add: make_result_arg_def bound_from_def ExecutedParam_def)
qed

lemma bind_param_bindings:
  assumes "bindings_from ec items st"
  shows "bindings_from ec items (bind_param ec va pd n p st)"
proof -
  obtain arg st1 where k: "keyword_loop ec va pd (var_arg_iterator st) st = (arg, st1)"
    by (cases "keyword_loop ec va pd (var_arg_iterator st) st")
  obtain r st2 where m: "make_result_arg ec va n p arg st1 = (r, st2)"
    by (cases "make_result_arg ec va n p arg st1")
  have "bindings_from ec items (snd (keyword_loop ec va pd (var_arg_iterator st) st))"
    using assms by (intro keyword_loop_bindings) (simp_all add: bindings_from_def)
  then have s1: "bindings_from ec items st1" using k by simp
  have arg: "a \<in> snd ` set items" if "arg = Some a" for a
  proof -
    have "(None, a) \<in> set (var_arg_iterator st)"
      using keyword_loop_argument[of ec va pd "var_arg_iterator st" st a] k that by simp
    then show ?thesis using assms by (force simp: bindings_from_def)
  qed
  have new: "bound_from ec items (ExecutedParam ec p r)"
    using make_result_arg_bound_from[of arg items ec p va n st1] arg m by simp
  have i2: "set (var_arg_iterator st2) \<subseteq> set items"
    using make_result_arg_iterator_subset[of ec va n p arg st1] m s1
    by (auto simp: bindings_from_def)
  have r2: "result_params st2 = result_params st1"
    using make_result_arg_result_params[of ec va n p arg st1] m by simp
  have k2: "keys_used st2 = keys_used st1"
    using make_result_arg_keys_used[of ec va n p arg st1] m by simp
  have upd: "\<forall>b \<in> snd ` set (AList.update (param_name p) (ExecutedParam ec p r) (keys_used st1)).
               bound_from ec items b"
    using set_update_subset[of "param_name p" "ExecutedParam ec p r" "keys_used st1"] new s1
    by (auto simp: bindings_from_def)
  show ?thesis
  proof (cases "map_of (keys_used st1) (param_name p)")
    case None
    then show ?thesis unfolding bind_param_unfold[OF k m]
      using s1 new i2 r2 k2 upd by (cases "r = LazyUnknownContext") (auto simp: bindings_from_def)
  next
    case (Some bound)
    then have "(param_name p, bound) \<in> set (keys_used st1)" by (rule map_of_SomeD)
    then have "bound_from ec items bound" using s1 by (force simp: bindings_from_def)
    then show ?thesis unfolding bind_param_unfold[OF k m]
      using s1 Some by (simp add: bindings_from_def)
  qed
qed

lemma param_loop_bindings:
  "bindings_from ec items st \<Longrightarrow> bindings_from ec items (param_loop ec va pd n ps st)"
  by (induction ps arbitrary: st) (simp_all add: bind_param_bindings)

lemma binder_loop_bindings:
  "bindings_from ec (unpack va (tree_node ec)) (binder_loop ec va)"
  unfolding binder_loop_def Let_def
  by (rule param_loop_bindings) (simp add: bindings_from_def)

lemma result_unresolved:
  assumes "get_params (tree_node ec) = passed @ param # rest"
    and "take_argument ec va (loop_state ec va passed) = (None, st1)"
    and "map_of (keys_used st1) (param_name param) = None"
    and "star_count param \<noteq> 1" and "star_count param \<noteq> 2"
    and "param_default param = None"
  shows "result_params (binder_loop ec va) ! length passed =
           ExecutedParam ec param LazyUnknownContext"
proof -
  let ?pd = "make_param_dict (get_params (tree_node ec))"
  let ?n = "length (unpack va (tree_node ec))"
  let ?st = "loop_state ec va passed"
  have k: "keyword_loop ec va ?pd (var_arg_iterator ?st) ?st = (None, st1)"
    using assms(2) by (simp add: take_argument_def)
  note step = bind_param_plain_without_argument(1)[OF k assms(3,4,5), of ?n]
  have "result_params (binder_loop ec va) ! length passed =
          last (result_params (loop_state ec va (passed @ [param])))"
    by (rule result_params_nth[OF assms(1)])
  then show ?thesis unfolding loop_state_snoc step using assms(6) by simp
qed

section \<open>Exhaustiveness\<close>

text \<open>
  Claim C1, as amended. When the node of every \<open>LazyTreeContext\<close> among the items
  has a parent, \<open>get_executed_params\<close> returns (no exception ends it), whatever
  else the items are, and its result has one entry per parameter of the function, in
  their order: the names of the entries are the names of the parameters, and when no two
  parameters share a name the parameter nodes of the entries are the parameters
  themselves. Every entry holds the value of an item, or a known tuple (one star), a
  known dict (two stars), the default of its parameter, or \<open>LazyUnknownContext\<close>
  when its parameter has no default. In particular a parameter without star and without
  default, reached with no unnamed item left and with no entry in \<open>keys_used\<close>, is
  bound to \<open>LazyUnknownContext\<close>.
\<close>

theorem get_executed_params_exhaustive:
  assumes "\<forall>(key, lazy) \<in> set (unpack var_args (tree_node ec)).
             \<forall>c node. lazy = LazyTreeContext c node \<longrightarrow> node_parent node \<noteq> None"
  shows "\<exists>result issues.
           get_executed_params ec var_args = Inr (result, issues) \<and>
           length result = length (get_params (tree_node ec)) \<and>
           map string_name result = map param_name (get_params (tree_node ec)) \<and>
           (distinct (map param_name (get_params (tree_node ec))) \<longrightarrow>
              map ep_param_node result = get_params (tree_node ec)) \<and>
           (\<forall>bound \<in> set result.
              ep_lazy_context bound \<in> snd ` set (unpack var_args (tree_node ec)) \<or>
              (if star_count (ep_param_node bound) = 1 then
                 (\<exists>collected. ep_lazy_context bound =
                    LazyKnownContext (FakeSequence (evaluator ec) ''tuple'' collected))
               else if star_count (ep_param_node bound) = 2 then
                 (\<exists>dct. ep_lazy_context bound = LazyKnownContext (FakeDict (evaluator ec) dct))
               else ep_lazy_context bound =
                      (case param_default (ep_param_node bound) of
                         Some d \<Rightarrow> LazyTreeContext (get_default_param_context ec) d
                       | None \<Rightarrow> LazyUnknownContext))) \<and>
           (\<forall>passed param rest st1.
              get_params (tree_node ec) = passed @ param # rest \<and>
              take_argument ec var_args (loop_state ec var_args passed) = (None, st1) \<and>
              map_of (keys_used st1) (param_name param) = None \<and>
              star_count param \<noteq> 1 \<and> star_count param \<noteq> 2 \<and> param_default param = None \<longrightarrow>
              result ! length passed = ExecutedParam ec param LazyUnknownContext)"
proof -
  let ?ps = "get_params (tree_node ec)"
  let ?pd = "make_param_dict ?ps"
  let ?xs = "unpack var_args (tree_node ec)"
  let ?st = "binder_loop ec var_args"
  let ?bs = "result_params ?st"
  have st: "?st = param_loop ec var_args ?pd (length ?xs) ?ps (initial_state ?xs)"
    by (simp add: binder_loop_def Let_def)
  have init_named: "keys_used_named (initial_state ?xs)" by (simp add: keys_used_named_def)
  have init_nodes: "keys_used_nodes ?pd (initial_state ?xs)" by (simp add: keys_used_nodes_def)
  have l: "length ?bs = length ?ps"
    and n: "map string_name ?bs = map param_name ?ps"
    and q: "param_dict_holds ?pd ?ps \<Longrightarrow> map ep_param_node ?bs = ?ps"
    using param_loop_result_params[of ec var_args ?pd "length ?xs" ?ps "initial_state ?xs"]
      init_named init_nodes param_dict_named_make[of ?ps] st by auto
  have d: "distinct (map param_name ?ps) \<longrightarrow> map ep_param_node ?bs = ?ps"
    using q param_dict_holds_make[of ?ps] by blast
  have "\<forall>x \<in> set ?xs. has_parent (snd x)"
    using assms by (auto simp: has_parent_def split: lazy_context.splits)
  then have "items_in_tree (initial_state ?xs)" by (simp add: items_in_tree_def)
  then have tree: "items_in_tree ?st" unfolding st by (rule param_loop_in_tree)
  obtain unexpected where u: "unexpected_keyword_issues ec (non_matching_keys ?st) = Inr unexpected"
    using unexpected_keyword_issues_returns[of "non_matching_keys ?st" ec] tree
    by (auto simp: items_in_tree_def)
  obtain too_many where t: "too_many_issues ec var_args (length ?xs) (var_arg_iterator ?st) = Inr too_many"
    using too_many_issues_returns[of "var_arg_iterator ?st" ec var_args "length ?xs"] tree
    by (auto simp: items_in_tree_def)
  let ?issues = "analysis ?st @ too_few_issues ec var_args ?pd (length ?xs) ?st @ unexpected @ too_many"
  have run: "get_executed_params ec var_args = Inr (?bs, ?issues)"
    using u t by (simp add: get_executed_params_def Let_def)
  have b: "\<forall>bound \<in> set ?bs.
              ep_lazy_context bound \<in> snd ` set ?xs \<or>
              (if star_count (ep_param_node bound) = 1 then
                 (\<exists>collected. ep_lazy_context bound =
                    LazyKnownContext (FakeSequence (evaluator ec) ''tuple'' collected))
               else if star_count (ep_param_node bound) = 2 then
                 (\<exists>dct. ep_lazy_context bound = LazyKnownContext (FakeDict (evaluator ec) dct))
               else ep_lazy_context bound =
                      (case param_default (ep_param_node bound) of
                         Some d \<Rightarrow> LazyTreeContext (get_default_param_context ec) d
                       | None \<Rightarrow> LazyUnknownContext))"
    using binder_loop_bindings[of ec var_args]
    unfolding bindings_from_def bound_from_def by (elim conjE)
  have w: "\<forall>passed param rest st1.
              get_params (tree_node ec) = passed @ param # rest \<and>
              take_argument ec var_args (loop_state ec var_args passed) = (None, st1) \<and>
              map_of (keys_used st1) (param_name param) = None \<and>
              star_count param \<noteq> 1 \<and> star_count param \<noteq> 2 \<and> param_default param = None \<longrightarrow>
              ?bs ! length passed = ExecutedParam ec param LazyUnknownContext"
  proof (intro allI impI, elim conjE)
    fix passed param rest st1
    assume "get_params (tree_node ec) = passed @ param # rest"
      and "take_argument ec var_args (loop_state ec var_args passed) = (None, st1)"
      and "map_of (keys_used st1) (param_name param) = None"
      and "star_count param \<noteq> 1" and "star_count param \<noteq> 2" and "param_default param = None"
    then show "?bs ! length passed = ExecutedParam ec param LazyUnknownContext"
      by (rule result_unresolved)
  qed
  show ?thesis
    apply (rule exI[of _ ?bs])
    apply (rule exI[of _ ?issues])
    apply (intro conjI)
         apply (rule run)
        apply (rule l)
       apply (rule n)
      apply (rule d)
     apply (rule b)
    apply (rule w)
    done
qed

theorem get_executed_params_exhaustive_witness:
  "\<exists>result issues.
     get_executed_params
       (function_f [required_param ''x'', star_param ''args'' 1, required_param ''y''])
       (call_with [positional 1, positional 2, keyword ''q'' 3, keyword ''x'' 4]) =
       Inr (result, issues) \<and>
     length result = 3 \<and>
     map string_name result = [''x'', ''args'', ''y''] \<and>
     map ep_param_node result = [required_param ''x'', star_param ''args'' 1, required_param ''y''] \<and>
     result ! 2 =
       ExecutedParam (function_f [required_param ''x'', star_param ''args'' 1, required_param ''y''])
         (required_param ''y'') LazyUnknownContext"
proof -
  let ?x = "required_param ''x''"
  let ?a = "star_param ''args'' 1"
  let ?y = "required_param ''y''"
  let ?ec = "function_f [?x, ?a, ?y]"
  let ?va = "call_with [positional 1, positional 2, keyword ''q'' 3, keyword ''x'' 4]"
  let ?t = "take_argument ?ec ?va (loop_state ?ec ?va [?x, ?a])"
  have ps: "get_params (tree_node ?ec) = [?x, ?a, ?y]" by (simp add: function_f_def)
  have in_tree: "\<forall>(key, lazy) \<in> set (unpack ?va (tree_node ?ec)).
                   \<forall>c node. lazy = LazyTreeContext c node \<longrightarrow> node_parent node \<noteq> None"
    by (simp add: example_defs)
  have names: "map param_name (get_params (tree_node ?ec)) = [''x'', ''args'', ''y'']"
    by (simp add: function_f_def required_param_def star_param_def)
  obtain result issues where r: "get_executed_params ?ec ?va = Inr (result, issues)"
    and l: "length result = length (get_params (tree_node ?ec))"
    and n: "map string_name result = map param_name (get_params (tree_node ?ec))"
    and q: "distinct (map param_name (get_params (tree_node ?ec))) \<longrightarrow>
              map ep_param_node result = get_params (tree_node ?ec)"
    and w: "\<forall>passed param rest st1.
              get_params (tree_node ?ec) = passed @ param # rest \<and>
              take_argument ?ec ?va (loop_state ?ec ?va passed) = (None, st1) \<and>
              map_of (keys_used st1) (param_name param) = None \<and>
              star_count param \<noteq> 1 \<and> star_count param \<noteq> 2 \<and> param_default param = None \<longrightarrow>
              result ! length passed = ExecutedParam ?ec param LazyUnknownContext"
    using get_executed_params_exhaustive [OF in_tree] by (elim exE conjE) (rule that)
  have f1: "length result = 3" using l by (simp only: ps) simp
  have f2: "map string_name result = [''x'', ''args'', ''y'']" using n by (simp only: names)
  have "distinct (map param_name (get_params (tree_node ?ec)))"
    by (simp add: function_f_def required_param_def star_param_def)
  with q have "map ep_param_node result = get_params (tree_node ?ec)" by (rule mp)
  then have f3: "map ep_param_node result = [?x, ?a, ?y]" by (simp only: ps)
  have split: "get_params (tree_node ?ec) = [?x, ?a] @ ?y # []" by (simp add: function_f_def)
  have "fst ?t = None"
    by (simp add: take_argument_def loop_state_def binder_defs example_defs)
  then have taken: "?t = (None, snd ?t)" by (simp add: prod_eq_iff)
  have unused: "map_of (keys_used (snd ?t)) (param_name ?y) = None"
    by (simp add: take_argument_def loop_state_def binder_defs example_defs)
  have plain: "star_count ?y \<noteq> 1" "star_count ?y \<noteq> 2" "param_default ?y = None"
    by (simp_all add: required_param_def)
  have "result ! length [?x, ?a] = ExecutedParam ?ec ?y LazyUnknownContext"
    using w[rule_format, of "[?x, ?a]" ?y "[]" "snd ?t"] split taken unused plain by blast
  moreover have "length [?x, ?a] = 2" by simp
  ultimately have f4: "result ! 2 = ExecutedParam ?ec ?y LazyUnknownContext" by (simp only:)
  show ?thesis
    apply (rule exI[of _ result])
    apply (rule exI[of _ issues])
    apply (intro conjI)
        apply (rule r)
       apply (rule f1)
      apply (rule f2)
     apply (rule f3)
    apply (rule f4)
    done
qed

text \<open>
  Claim C1 as it is stated fails. For \<open>def f(x)\<close> and two unnamed items of which the
  second is a \<open>LazyTreeContext\<close> whose node has no parent, that item is left after
  the loop and \<open>_add_argument_issue\<close> raises on \<open>node.parent.type\<close>. And for two
  parameters of the name \<open>x\<close>, the second with a default, called with \<open>x=1\<close>, both
  entries of the result are executed parameters of the second parameter, none of the
  first.
\<close>

theorem raise_and_repeated_name:
  "get_executed_params (function_f [required_param ''x''])
     (call_with [positional 1, (None, LazyTreeContext 7 module_node)]) = Inl AttributeError \<and>
   get_executed_params (function_f [required_param ''x'', default_param ''x'' (number_node 9)])
     (call_with [keyword ''x'' 1]) =
     Inr ([ExecutedParam (function_f [required_param ''x'', default_param ''x'' (number_node 9)])
             (default_param ''x'' (number_node 9)) (snd (keyword ''x'' 1)),
           ExecutedParam (function_f [required_param ''x'', default_param ''x'' (number_node 9)])
             (default_param ''x'' (number_node 9)) (snd (keyword ''x'' 1))], []) \<and>
   default_param ''x'' (number_node 9) \<noteq> required_param ''x''"
  by (simp add: binder_defs example_defs)

section \<open>A parameter without argument\<close>

text \<open>
  Claim C7. Let the loop reach a parameter without star, let the iterator run out
  without an unnamed item (\<open>argument\<close> is \<open>None\<close> after the \<open>while\<close> loop) and
  let \<open>keys_used\<close> have no entry for the parameter. Then the parameter is bound to
  \<open>LazyTreeContext(default_param_context, param.default)\<close> when it has a default,
  where \<open>default_param_context\<close> is the context the function was defined in, and to
  \<open>LazyUnknownContext\<close> when it has none; and the pass adds issues only in the second
  case and only when \<open>keys_only\<close> is still false: then one
  \<open>type-error-too-few-arguments\<close> per calling node.
\<close>

theorem plain_param_without_argument:
  assumes "get_params (tree_node ec) = passed @ param # rest"
    and "take_argument ec var_args (loop_state ec var_args passed) = (None, st1)"
    and "map_of (keys_used st1) (param_name param) = None"
    and "star_count param \<noteq> 1" and "star_count param \<noteq> 2"
    and "get_executed_params ec var_args = Inr (result, issues)"
  shows "result ! length passed =
           ExecutedParam ec param
             (case param_default param of
                Some d \<Rightarrow> LazyTreeContext (get_default_param_context ec) d
              | None \<Rightarrow> LazyUnknownContext) \<and>
         analysis (loop_state ec var_args (passed @ [param])) =
           analysis st1 @
             (if param_default param = None \<and> \<not> keys_only st1
              then map (\<lambda>node. analysis_add (get_default_param_context ec)
                          ''type-error-too-few-arguments'' node
                          (error_argument_count (tree_node ec)
                             (length (unpack var_args (tree_node ec)))))
                     (get_calling_nodes var_args)
              else [])"
proof -
  let ?pd = "make_param_dict (get_params (tree_node ec))"
  let ?n = "length (unpack var_args (tree_node ec))"
  let ?st = "loop_state ec var_args passed"
  have k: "keyword_loop ec var_args ?pd (var_arg_iterator ?st) ?st = (None, st1)"
    using assms(2) by (simp add: take_argument_def)
  note step = bind_param_plain_without_argument[OF k assms(3,4,5), of ?n]
  have "result = result_params (binder_loop ec var_args)"
    using assms(6) by (rule get_executed_params_result)
  then have "result ! length passed = last (result_params (loop_state ec var_args (passed @ [param])))"
    using result_params_nth[OF assms(1), of var_args] by simp
  then have "result ! length passed =
           ExecutedParam ec param
             (case param_default param of
                Some d \<Rightarrow> LazyTreeContext (get_default_param_context ec) d
              | None \<Rightarrow> LazyUnknownContext)"
    unfolding loop_state_snoc step(1) by simp
  then show ?thesis unfolding loop_state_snoc step(2) by simp
qed

theorem plain_param_without_argument_witness:
  "get_executed_params
     (function_f [required_param ''x'', default_param ''y'' (number_node 9)]) (call_with []) =
     Inr ([ExecutedParam (function_f [required_param ''x'', default_param ''y'' (number_node 9)])
             (required_param ''x'') LazyUnknownContext,
           ExecutedParam (function_f [required_param ''x'', default_param ''y'' (number_node 9)])
             (default_param ''y'' (number_node 9)) (LazyTreeContext 2 (number_node 9))],
          [analysis_add 2 ''type-error-too-few-arguments'' call_node
             (error_argument_count
                (tree_node (function_f [required_param ''x'', default_param ''y'' (number_node 9)])) 0)]) \<and>
   analysis (loop_state (function_f [required_param ''x'', default_param ''y'' (number_node 9)])
               (call_with []) [required_param ''x'']) =
     [analysis_add 2 ''type-error-too-few-arguments'' call_node
        (error_argument_count
           (tree_node (function_f [required_param ''x'', default_param ''y'' (number_node 9)])) 0)] \<and>
   analysis (loop_state (function_f [required_param ''x'', default_param ''y'' (number_node 9)])
               (call_with []) [required_param ''x'', default_param ''y'' (number_node 9)]) =
     [analysis_add 2 ''type-error-too-few-arguments'' call_node
        (error_argument_count
           (tree_node (function_f [required_param ''x'', default_param ''y'' (number_node 9)])) 0)]"
proof -
  let ?x = "required_param ''x''"
  let ?y = "default_param ''y'' (number_node 9)"
  let ?ec = "function_f [?x, ?y]"
  let ?va = "call_with []"
  let ?few = "analysis_add 2 ''type-error-too-few-arguments'' call_node
                (error_argument_count (tree_node ?ec) 0)"
  let ?result = "[ExecutedParam ?ec ?x LazyUnknownContext,
                  ExecutedParam ?ec ?y (LazyTreeContext 2 (number_node 9))]"
  have run: "get_executed_params ?ec ?va = Inr (?result, [?few])"
    by (simp add: binder_defs example_defs)
  have params: "get_params (tree_node ?ec) = [] @ ?x # [?y]" by (simp add: function_f_def)
  have taken: "take_argument ?ec ?va (loop_state ?ec ?va []) = (None, initial_state [])"
    by (simp add: take_argument_def loop_state_def call_with_def)
  have unused: "map_of (keys_used (initial_state [])) (param_name ?x) = None" by simp
  have s1: "star_count ?x \<noteq> 1" and s2: "star_count ?x \<noteq> 2"
    by (simp_all add: required_param_def)
  from plain_param_without_argument [OF params taken unused s1 s2 run]
  have "analysis (loop_state ?ec ?va ([] @ [?x])) =
          analysis (initial_state []) @
            (if param_default ?x = None \<and> \<not> keys_only (initial_state [])
             then map (\<lambda>node. analysis_add (get_default_param_context ?ec)
                         ''type-error-too-few-arguments'' node
                         (error_argument_count (tree_node ?ec)
                            (length (unpack ?va (tree_node ?ec)))))
                    (get_calling_nodes ?va)
             else [])"
    by (rule conjunct2)
  then have "analysis (loop_state ?ec ?va [?x]) = [?few]"
    by (simp add: required_param_def function_f_def call_with_def)
  moreover have "analysis (loop_state ?ec ?va [?x, ?y]) = [?few]"
    by (simp add: loop_state_def binder_defs example_defs)
  ultimately show ?thesis using run by simp
qed

section \<open>A parameter bound by a keyword\<close>

text \<open>
  Claim C2, as amended. Let the loop reach a parameter for which \<open>keys_used\<close> has
  an entry once the \<open>while\<close> loop is left, and let an unnamed item \<open>a\<close> follow the
  named items at the front of the iterator. Then the parameter is bound to that entry,
  and the pass has taken \<open>a\<close> from the iterator: \<open>a\<close> is the value of
  \<open>argument\<close>, the iterator holds only the items after \<open>a\<close>, and nothing else of
  the state has changed since the \<open>while\<close> loop. The item is not pushed back, so no
  later parameter is bound to it.
\<close>

theorem keyword_bound_param_drops_argument:
  assumes "get_params (tree_node ec) = passed @ param # rest"
    and "var_arg_iterator (loop_state ec var_args passed) = named @ (None, a) # left"
    and "\<forall>x \<in> set named. fst x \<noteq> None"
    and "take_argument ec var_args (loop_state ec var_args passed) = (argument, st1)"
    and "map_of (keys_used st1) (param_name param) = Some bound"
    and "get_executed_params ec var_args = Inr (result, issues)"
  shows "result ! length passed = bound \<and>
         argument = Some a \<and>
         var_arg_iterator st1 = left \<and>
         loop_state ec var_args (passed @ [param]) =
           st1\<lparr>result_params := result_params st1 @ [bound]\<rparr>"
proof -
  let ?pd = "make_param_dict (get_params (tree_node ec))"
  let ?n = "length (unpack var_args (tree_node ec))"
  let ?st = "loop_state ec var_args passed"
  have k: "keyword_loop ec var_args ?pd (var_arg_iterator ?st) ?st = (argument, st1)"
    using assms(4) by (simp add: take_argument_def)
  have "keyword_loop ec var_args ?pd (var_arg_iterator ?st) ?st =
          (Some a, (snd (keyword_loop ec var_args ?pd named ?st))\<lparr>var_arg_iterator := left\<rparr>)"
    unfolding assms(2) using assms(3) by (rule keyword_loop_named_prefix)
  with k have a: "argument = Some a" and l: "var_arg_iterator st1 = left" by auto
  have s: "loop_state ec var_args (passed @ [param]) = st1\<lparr>result_params := result_params st1 @ [bound]\<rparr>"
    unfolding loop_state_snoc using k assms(5) by (rule bind_param_bound)
  have "result = result_params (binder_loop ec var_args)"
    using assms(6) by (rule get_executed_params_result)
  then have "result ! length passed = last (result_params (loop_state ec var_args (passed @ [param])))"
    using result_params_nth[OF assms(1), of var_args] by simp
  then have "result ! length passed = bound" unfolding s by simp
  then show ?thesis using a l s by simp
qed

theorem keyword_bound_param_drops_argument_witness:
  "get_executed_params (function_f [required_param ''x'', required_param ''y''])
     (call_with [keyword ''x'' 1, positional 2]) =
     Inr ([ExecutedParam (function_f [required_param ''x'', required_param ''y''])
             (required_param ''x'') (snd (keyword ''x'' 1)),
           ExecutedParam (function_f [required_param ''x'', required_param ''y''])
             (required_param ''y'') LazyUnknownContext],
          [analysis_add 2 ''type-error-too-few-arguments'' call_node
             (error_argument_count
                (tree_node (function_f [required_param ''x'', required_param ''y''])) 2)]) \<and>
   var_arg_iterator
     (loop_state (function_f [required_param ''x'', required_param ''y''])
        (call_with [keyword ''x'' 1, positional 2]) [required_param ''x'']) = []"
proof -
  let ?x = "required_param ''x''"
  let ?y = "required_param ''y''"
  let ?ec = "function_f [?x, ?y]"
  let ?va = "call_with [keyword ''x'' 1, positional 2]"
  let ?bound = "ExecutedParam ?ec ?x (snd (keyword ''x'' 1))"
  let ?st1 = "\<lparr>result_params = [], var_arg_iterator = [], non_matching_keys = [],
               keys_used = [(''x'', ?bound)], keys_only = True,
               had_multiple_value_error = False, analysis = []\<rparr>"
  have run: "get_executed_params ?ec ?va =
               Inr ([?bound, ExecutedParam ?ec ?y LazyUnknownContext],
                    [analysis_add 2 ''type-error-too-few-arguments'' call_node
                       (error_argument_count (tree_node ?ec) 2)])"
    by (simp add: binder_defs example_defs numeral_2_eq_2)
  have params: "get_params (tree_node ?ec) = [] @ ?x # [?y]" by (simp add: function_f_def)
  have items: "var_arg_iterator (loop_state ?ec ?va []) = [keyword ''x'' 1] @ (None, snd (positional 2)) # []"
    by (simp add: loop_state_def example_defs)
  have named: "\<forall>x \<in> set [keyword ''x'' 1]. fst x \<noteq> None" by (simp add: keyword_def)
  have taken: "take_argument ?ec ?va (loop_state ?ec ?va []) = (Some (snd (positional 2)), ?st1)"
    by (simp add: take_argument_def loop_state_def binder_defs example_defs)
  have used: "map_of (keys_used ?st1) (param_name ?x) = Some ?bound"
    by (simp add: required_param_def)
  from keyword_bound_param_drops_argument [OF params items named taken used run]
  have "loop_state ?ec ?va ([] @ [?x]) = ?st1\<lparr>result_params := result_params ?st1 @ [?bound]\<rparr>"
    by simp
  then have "var_arg_iterator (loop_state ?ec ?va [?x]) = []" by simp
  then show ?thesis using run by simp
qed

text \<open>
  Claim C2 as it is stated fails: for \<open>def f(x, y)\<close> and the items \<open>x=1, 2\<close>, the
  parameter \<open>x\<close> is bound by its keyword, and after its pass the unnamed item \<open>2\<close>
  is not in the iterator; \<open>y\<close> is bound to \<open>LazyUnknownContext\<close>, not to \<open>2\<close>.
\<close>

theorem unnamed_item_not_pushed_back:
  "var_arg_iterator
     (loop_state (function_f [required_param ''x'', required_param ''y''])
        (call_with [keyword ''x'' 1, positional 2]) [required_param ''x'']) \<noteq> [positional 2] \<and>
   get_executed_params (function_f [required_param ''x'', required_param ''y''])
     (call_with [keyword ''x'' 1, positional 2]) =
     Inr ([ExecutedParam (function_f [required_param ''x'', required_param ''y''])
             (required_param ''x'') (snd (keyword ''x'' 1)),
           ExecutedParam (function_f [required_param ''x'', required_param ''y''])
             (required_param ''y'') LazyUnknownContext],
          [analysis_add 2 ''type-error-too-few-arguments'' call_node
             (error_argument_count
                (tree_node (function_f [required_param ''x'', required_param ''y''])) 2)])"
  by (simp add: loop_state_def binder_defs example_defs numeral_2_eq_2)

section \<open>How many issues a call adds\<close>




section \<open>Arguments that are left\<close>

text \<open>
  Claim C6, as amended. When items are left in the iterator after the loop over the
  parameters, the call adds exactly one \<open>type-error-too-many-arguments\<close> issue if
  there is a calling node and the value of the first item left is a
  \<open>LazyTreeContext\<close>: the issue is at the node of that first item, or at its parent
  when the parent is an \<open>argument\<close> node. The call adds no such issue when there is
  no calling node or when the value of the first item left is not a
  \<open>LazyTreeContext\<close>. (A node without parent does not occur here: the call
  returned.)
\<close>

theorem too_many_arguments_issue:
  assumes "get_executed_params ec var_args = Inr (result, issues)"
    and "var_arg_iterator (binder_loop ec var_args) = (first_key, lazy) # left"
  shows "filter (\<lambda>i. error_name i = ''type-error-too-many-arguments'') issues =
           (if get_calling_nodes var_args \<noteq> [] then
              (case lazy of
                 LazyTreeContext c node \<Rightarrow>
                   (case node_parent node of
                      Some parent \<Rightarrow>
                        [analysis_add (get_default_param_context ec)
                           ''type-error-too-many-arguments''
                           (if node_type parent = ''argument'' then parent else node)
                           (error_argument_count (tree_node ec)
                              (length (unpack var_args (tree_node ec))))]
                    | None \<Rightarrow> [])
               | _ \<Rightarrow> [])
            else [])"
proof -
  let ?n = "length (unpack var_args (tree_node ec))"
  let ?pd = "make_param_dict (get_params (tree_node ec))"
  let ?st = "binder_loop ec var_args"
  let ?A = "analysis ?st"
  let ?F = "too_few_issues ec var_args ?pd ?n ?st"
  let ?many = "\<lambda>i. error_name i = ''type-error-too-many-arguments''"
  obtain u t where u: "unexpected_keyword_issues ec (non_matching_keys ?st) = Inr u"
    and t: "too_many_issues ec var_args ?n (var_arg_iterator ?st) = Inr t"
    and issues: "issues = ?A @ ?F @ u @ t"
    using get_executed_params_issues[OF assms(1)] by blast
  have "filter ?many ?A = []"
    using binder_loop_loop_issues by (rule loop_issues_filter) simp_all
  moreover have "filter ?many ?F = []"
    using too_few_issues_loop_issues by (rule loop_issues_filter) simp_all
  moreover have "filter ?many u = []"
    using unexpected_keyword_issues_names[OF u] by (rule names_filter_other) simp
  moreover have "filter ?many t = t"
    using too_many_issues_names[OF t] by (intro names_filter_same) simp
  ultimately have "filter ?many issues = t" unfolding issues by simp
  then show ?thesis using too_many_issues_Inr[OF t] assms(2) by simp
qed

theorem too_many_arguments_issue_witness:
  "var_arg_iterator (binder_loop (function_f [required_param ''x'']) (call_with [positional 1, positional 2, positional 3])) =
     [positional 2, positional 3] \<and>
   get_executed_params (function_f [required_param ''x'']) (call_with [positional 1, positional 2, positional 3]) =
     Inr ([ExecutedParam (function_f [required_param ''x'']) (required_param ''x'') (snd (positional 1))],
        [analysis_add 2 ''type-error-too-many-arguments'' (number_node 2)
       (error_argument_count (tree_node (function_f [required_param ''x''])) 3)]) \<and>
   filter (\<lambda>i. error_name i = ''type-error-too-many-arguments'')
     [analysis_add 2 ''type-error-too-many-arguments'' (number_node 2)
       (error_argument_count (tree_node (function_f [required_param ''x''])) 3)] =
     [analysis_add 2 ''type-error-too-many-arguments'' (number_node 2)
       (error_argument_count (tree_node (function_f [required_param ''x''])) 3)]"
proof -
  let ?va = "call_with [positional 1, positional 2, positional 3]"
  have left: "var_arg_iterator (binder_loop (function_f [required_param ''x'']) ?va) =
                (None, LazyTreeContext 7 (number_node 2)) # [positional 3]"
    by (simp add: binder_defs example_defs)
  have run: "get_executed_params (function_f [required_param ''x'']) ?va =
     Inr ([ExecutedParam (function_f [required_param ''x'']) (required_param ''x'') (snd (positional 1))],
        [analysis_add 2 ''type-error-too-many-arguments'' (number_node 2)
       (error_argument_count (tree_node (function_f [required_param ''x''])) 3)])"
    by (simp add: binder_defs example_defs numeral_3_eq_3)
  from too_many_arguments_issue [OF run left]
  have "filter (\<lambda>i. error_name i = ''type-error-too-many-arguments'')
     [analysis_add 2 ''type-error-too-many-arguments'' (number_node 2)
       (error_argument_count (tree_node (function_f [required_param ''x''])) 3)] =
     [analysis_add 2 ''type-error-too-many-arguments'' (number_node 2)
       (error_argument_count (tree_node (function_f [required_param ''x''])) 3)]"
    by (simp add: example_defs numeral_3_eq_3)
  then show ?thesis using run left by (simp add: positional_def)
qed

text \<open>
  Claim C6 as it is stated fails: for \<open>def f(x)\<close> and three unnamed items of which
  the second is a known value, two items are left after the loop and there is a calling
  node, yet no \<open>type-error-too-many-arguments\<close> issue is added.
\<close>

theorem known_value_left_without_issue:
  "var_arg_iterator
     (binder_loop (function_f [required_param ''x''])
        (call_with [positional 1, (None, LazyKnownContext (OtherValue 5)), positional 3])) =
     [(None, LazyKnownContext (OtherValue 5)), positional 3] \<and>
   get_calling_nodes
     (call_with [positional 1, (None, LazyKnownContext (OtherValue 5)), positional 3]) =
     [call_node] \<and>
   get_executed_params (function_f [required_param ''x''])
     (call_with [positional 1, (None, LazyKnownContext (OtherValue 5)), positional 3]) =
     Inr ([ExecutedParam (function_f [required_param ''x'']) (required_param ''x'') (snd (positional 1))], [])"
  by (simp add: binder_defs example_defs)

section \<open>Issues for tree contexts only\<close>

text \<open>
  Claim C10. The \<open>type-error-keyword-argument\<close> issues of a call are those of the
  entries of \<open>non_matching_keys\<close> whose value is a \<open>LazyTreeContext\<close>, one each, in
  the order of the entries: an entry with a known or unknown value adds none. A
  \<open>type-error-too-many-arguments\<close> issue is added only when the value of the first
  item left in the iterator is a \<open>LazyTreeContext\<close>. Neither depends on whether
  calling nodes exist.
\<close>

theorem argument_issue_only_for_tree:
  assumes "get_executed_params ec var_args = Inr (result, issues)"
  shows "filter (\<lambda>i. error_name i = ''type-error-keyword-argument'') issues =
           concat (map (\<lambda>(key, lazy).
             case lazy of
               LazyTreeContext c node \<Rightarrow>
                 (case node_parent node of
                    Some parent \<Rightarrow>
                      [analysis_add (get_default_param_context ec) ''type-error-keyword-argument''
                         (if node_type parent = ''argument'' then parent else node)
                         (unexpected_keyword_message (tree_node ec) key)]
                  | None \<Rightarrow> [])
             | _ \<Rightarrow> []) (non_matching_keys (binder_loop ec var_args))) \<and>
         (filter (\<lambda>i. error_name i = ''type-error-too-many-arguments'') issues \<noteq> [] \<longrightarrow>
            (\<exists>key c node left.
               var_arg_iterator (binder_loop ec var_args) = (key, LazyTreeContext c node) # left))"
proof -
  let ?n = "length (unpack var_args (tree_node ec))"
  let ?pd = "make_param_dict (get_params (tree_node ec))"
  let ?st = "binder_loop ec var_args"
  let ?A = "analysis ?st"
  let ?F = "too_few_issues ec var_args ?pd ?n ?st"
  let ?many = "\<lambda>i. error_name i = ''type-error-too-many-arguments''"
  let ?kw = "\<lambda>i. error_name i = ''type-error-keyword-argument''"
  obtain u t where u: "unexpected_keyword_issues ec (non_matching_keys ?st) = Inr u"
    and t: "too_many_issues ec var_args ?n (var_arg_iterator ?st) = Inr t"
    and issues: "issues = ?A @ ?F @ u @ t"
    using get_executed_params_issues[OF assms(1)] by blast
  have "filter ?kw ?A = []"
    using binder_loop_loop_issues by (rule loop_issues_filter) simp_all
  moreover have "filter ?kw ?F = []"
    using too_few_issues_loop_issues by (rule loop_issues_filter) simp_all
  moreover have "filter ?kw u = u"
    using unexpected_keyword_issues_names[OF u] by (intro names_filter_same) simp
  moreover have "filter ?kw t = []"
    using too_many_issues_names[OF t] by (intro names_filter_other[where name' = "''type-error-too-many-arguments''"]) simp_all
  ultimately have "filter ?kw issues = u" unfolding issues by simp
  then have first: "filter ?kw issues =
           concat (map (\<lambda>(key, lazy).
             case lazy of
               LazyTreeContext c node \<Rightarrow>
                 (case node_parent node of
                    Some parent \<Rightarrow>
                      [analysis_add (get_default_param_context ec) ''type-error-keyword-argument''
                         (if node_type parent = ''argument'' then parent else node)
                         (unexpected_keyword_message (tree_node ec) key)]
                  | None \<Rightarrow> [])
             | _ \<Rightarrow> []) (non_matching_keys ?st))"
    using unexpected_keyword_issues_Inr[OF u] by simp
  have "filter ?many ?A = []"
    using binder_loop_loop_issues by (rule loop_issues_filter) simp_all
  moreover have "filter ?many ?F = []"
    using too_few_issues_loop_issues by (rule loop_issues_filter) simp_all
  moreover have "filter ?many u = []"
    using unexpected_keyword_issues_names[OF u] by (rule names_filter_other) simp
  ultimately have m: "filter ?many issues = filter ?many t" unfolding issues by simp
  have second: "\<exists>key c node left. var_arg_iterator ?st = (key, LazyTreeContext c node) # left"
    if "filter ?many issues \<noteq> []"
  proof -
    from that have "t \<noteq> []" unfolding m by auto
    then show ?thesis using too_many_issues_Inr[OF t]
      by (auto split: list.splits lazy_context.splits option.splits if_splits)
  qed
  show ?thesis using first second by blast
qed

theorem argument_issue_only_for_tree_witness:
  "non_matching_keys (binder_loop (function_f [required_param ''x'']) (call_with [keyword ''x'' 1, (Some ''q'', LazyKnownContext (OtherValue 5)), keyword ''r'' 3])) =
     [(''q'', LazyKnownContext (OtherValue 5)), (''r'', snd (keyword ''r'' 3))] \<and>
   get_executed_params (function_f [required_param ''x'']) (call_with [keyword ''x'' 1, (Some ''q'', LazyKnownContext (OtherValue 5)), keyword ''r'' 3]) =
     Inr ([ExecutedParam (function_f [required_param ''x'']) (required_param ''x'') (snd (keyword ''x'' 1))],
        [analysis_add 2 ''type-error-keyword-argument'' (argument_node 3)
       (unexpected_keyword_message (tree_node (function_f [required_param ''x''])) ''r'')]) \<and>
   filter (\<lambda>i. error_name i = ''type-error-keyword-argument'')
     [analysis_add 2 ''type-error-keyword-argument'' (argument_node 3)
       (unexpected_keyword_message (tree_node (function_f [required_param ''x''])) ''r'')] =
     [analysis_add 2 ''type-error-keyword-argument'' (argument_node 3)
       (unexpected_keyword_message (tree_node (function_f [required_param ''x''])) ''r'')]"
proof -
  have keys: "non_matching_keys (binder_loop (function_f [required_param ''x'']) (call_with [keyword ''x'' 1, (Some ''q'', LazyKnownContext (OtherValue 5)), keyword ''r'' 3])) =
     [(''q'', LazyKnownContext (OtherValue 5)), (''r'', snd (keyword ''r'' 3))]"
    by (simp add: binder_defs example_defs)
  have run: "get_executed_params (function_f [required_param ''x'']) (call_with [keyword ''x'' 1, (Some ''q'', LazyKnownContext (OtherValue 5)), keyword ''r'' 3]) =
     Inr ([ExecutedParam (function_f [required_param ''x'']) (required_param ''x'') (snd (keyword ''x'' 1))],
        [analysis_add 2 ''type-error-keyword-argument'' (argument_node 3)
       (unexpected_keyword_message (tree_node (function_f [required_param ''x''])) ''r'')])"
    by (simp add: binder_defs example_defs)
  from argument_issue_only_for_tree [OF run]
  have "filter (\<lambda>i. error_name i = ''type-error-keyword-argument'')
     [analysis_add 2 ''type-error-keyword-argument'' (argument_node 3)
       (unexpected_keyword_message (tree_node (function_f [required_param ''x''])) ''r'')] =
     [analysis_add 2 ''type-error-keyword-argument'' (argument_node 3)
       (unexpected_keyword_message (tree_node (function_f [required_param ''x''])) ''r'')]"
    unfolding keys by (simp add: example_defs)
  then show ?thesis using run keys by simp
qed

section \<open>The default synthesizer\<close>

text \<open>
  Claim C9. \<open>create_default_params\<close> returns one executed parameter per parameter of
  the function, in order: a \<open>*args\<close> parameter holds a known empty tuple, a
  \<open>**kwargs\<close> parameter a known empty dict, any other parameter its default
  expression as a \<open>LazyTreeContext\<close> when it has one and \<open>LazyUnknownContext\<close>
  when it has none. No issue is added, whatever the parameters are.
\<close>

theorem create_default_params_spec:
  "snd (create_default_params ec funcdef) = [] \<and>
   map ep_param_node (fst (create_default_params ec funcdef)) = get_params funcdef \<and>
   (\<forall>i < length (get_params funcdef).
      let p = get_params funcdef ! i; bound = fst (create_default_params ec funcdef) ! i in
        bound = ExecutedParam ec p (ep_lazy_context bound) \<and>
        (star_count p = 1 \<longrightarrow>
           ep_lazy_context bound = LazyKnownContext (FakeSequence (evaluator ec) ''tuple'' [])) \<and>
        (star_count p = 2 \<longrightarrow>
           ep_lazy_context bound = LazyKnownContext (FakeDict (evaluator ec) [])) \<and>
        (star_count p \<noteq> 1 \<and> star_count p \<noteq> 2 \<longrightarrow>
           (case param_default p of
              Some d \<Rightarrow> ep_lazy_context bound = LazyTreeContext (parent_context ec) d
            | None \<Rightarrow> ep_lazy_context bound = LazyUnknownContext)))"
  by (auto simp: create_default_params_def create_default_param_def ExecutedParam_def Let_def
        intro: nth_equalityI split: option.splits)

theorem create_default_params_witness:
  "create_default_params
     (function_f [star_param ''args'' 1, star_param ''kwargs'' 2,
                  default_param ''x'' (number_node 5), required_param ''y''])
     \<lparr>funcdef_name = ''f'',
      get_params = [star_param ''args'' 1, star_param ''kwargs'' 2,
                    default_param ''x'' (number_node 5), required_param ''y'']\<rparr>
   = (map (\<lambda>(p, l). ExecutedParam
                (function_f [star_param ''args'' 1, star_param ''kwargs'' 2,
                             default_param ''x'' (number_node 5), required_param ''y'']) p l)
        [(star_param ''args'' 1, LazyKnownContext (FakeSequence 0 ''tuple'' [])),
         (star_param ''kwargs'' 2, LazyKnownContext (FakeDict 0 [])),
         (default_param ''x'' (number_node 5), LazyTreeContext 1 (number_node 5)),
         (required_param ''y'', LazyUnknownContext)], [])"
  using create_default_params_spec
    [of "function_f [star_param ''args'' 1, star_param ''kwargs'' 2,
                     default_param ''x'' (number_node 5), required_param ''y'']"
        "\<lparr>funcdef_name = ''f'',
          get_params = [star_param ''args'' 1, star_param ''kwargs'' 2,
                        default_param ''x'' (number_node 5), required_param ''y'']\<rparr>"]
  by (simp add: create_default_params_def create_default_param_def ExecutedParam_def
        function_f_def star_param_def default_param_def required_param_def)

section \<open>Matching a signature\<close>

text \<open>
  Claim C8. \<open>matches_signature\<close> is true for every parameter with a star; it is true
  when the set of annotations is empty; otherwise it is true exactly when some class of
  the value inferred without hints is a subclass of some annotation.
\<close>

theorem matches_signature_spec:
  "(star_count (ep_param_node self) \<noteq> 0 \<longrightarrow> matches_signature env self) \<and>
   (infer_annotations env self = {} \<longrightarrow> matches_signature env self) \<and>
   (star_count (ep_param_node self) = 0 \<and> infer_annotations env self \<noteq> {} \<longrightarrow>
      matches_signature env self =
        (\<exists>c1 \<in> py_class env ` lazy_infer env (ep_lazy_context self).
           \<exists>c2 \<in> infer_annotations env self. is_sub_class_of env c1 c2))"
  by (simp add: matches_signature_def infer_def Let_def)

theorem matches_signature_witness:
  "matches_signature example_inference
     (ExecutedParam (function_f []) (star_param ''x'' 1) LazyUnknownContext) \<and>
   matches_signature example_inference
     (ExecutedParam (function_f []) (required_param ''y'') LazyUnknownContext) \<and>
   matches_signature example_inference
     (ExecutedParam (function_f []) (required_param ''x'') (LazyKnownContext (OtherValue 0))) \<and>
   \<not> matches_signature example_inference
     (ExecutedParam (function_f []) (required_param ''x'') LazyUnknownContext)"
  using
    matches_signature_spec [of "ExecutedParam (function_f []) (star_param ''x'' 1) LazyUnknownContext"
      example_inference]
    matches_signature_spec [of "ExecutedParam (function_f []) (required_param ''y'') LazyUnknownContext"
      example_inference]
    matches_signature_spec [of "ExecutedParam (function_f []) (required_param ''x'')
      (LazyKnownContext (OtherValue 0))" example_inference]
    matches_signature_spec [of "ExecutedParam (function_f []) (required_param ''x'') LazyUnknownContext"
      example_inference]
  by (simp add: infer_annotations_def example_inference_def ExecutedParam_def star_param_def
        required_param_def)

section \<open>Examples of binding\<close>

text \<open>
  Claim C5. For \<open>def f(x, y)\<close> and the items \<open>1, y=2, x=3\<close>, \<open>x\<close> keeps the
  positional argument, \<open>y\<close> is bound to the value of \<open>y=2\<close>, the value of \<open>x=3\<close>
  is bound nowhere, and the issues added are one \<open>type-error-multiple-values\<close> for
  the key \<open>x\<close> at each calling node, these and no others.
\<close>

theorem keyword_override:
  assumes "get_params (tree_node ec) = [x, y]"
    and "param_name x = ''x''" and "param_name y = ''y''"
    and "star_count x = 0" and "star_count y = 0"
    and "unpack var_args (tree_node ec) = [(None, a1), (Some ''y'', a2), (Some ''x'', a3)]"
    and "a1 \<noteq> LazyUnknownContext"
  shows "get_executed_params ec var_args =
           Inr ([ExecutedParam ec x a1, ExecutedParam ec y a2],
                map (\<lambda>node. analysis_add (get_default_param_context ec)
                       ''type-error-multiple-values'' node
                       (multiple_values_message (tree_node ec) ''x''))
                    (get_calling_nodes var_args))"
  using assms by (simp add: binder_defs)

theorem keyword_override_witness:
  "get_executed_params (function_f [required_param ''x'', required_param ''y''])
     (call_with [positional 1, keyword ''y'' 2, keyword ''x'' 3]) =
   Inr ([ExecutedParam (function_f [required_param ''x'', required_param ''y''])
           (required_param ''x'') (snd (positional 1)),
         ExecutedParam (function_f [required_param ''x'', required_param ''y''])
           (required_param ''y'') (snd (keyword ''y'' 2))],
        [analysis_add 2 ''type-error-multiple-values'' call_node
           (multiple_values_message
              (tree_node (function_f [required_param ''x'', required_param ''y''])) ''x'')])"
  using keyword_override
    [of "function_f [required_param ''x'', required_param ''y'']"
        "required_param ''x''" "required_param ''y''"
        "call_with [positional 1, keyword ''y'' 2, keyword ''x'' 3]"
        "snd (positional 1)" "snd (keyword ''y'' 2)" "snd (keyword ''x'' 3)"]
  by (simp add: example_defs)

text \<open>
  Claim C4 fails on the code: a keyword whose name is the name of a \<open>*args\<close> or
  \<open>**kwargs\<close> parameter is stored in \<open>keys_used\<close> like a keyword of any other
  parameter, and the parameter is then bound to the value of the keyword itself, not to
  a tuple or a dict. Here \<open>def f(**kwargs)\<close> is called as \<open>f(kwargs=1)\<close> and
  \<open>def f(*args)\<close> as \<open>f(args=1)\<close>.
\<close>

theorem star_param_bound_by_keyword:
  "get_executed_params (function_f [star_param ''kwargs'' 2]) (call_with [keyword ''kwargs'' 1]) =
     Inr ([ExecutedParam (function_f [star_param ''kwargs'' 2]) (star_param ''kwargs'' 2)
             (LazyTreeContext 7 (SyntaxNode ''number'' 1 (Some (argument_node 1))))], []) \<and>
   get_executed_params (function_f [star_param ''args'' 1]) (call_with [keyword ''args'' 1]) =
     Inr ([ExecutedParam (function_f [star_param ''args'' 1]) (star_param ''args'' 1)
             (LazyTreeContext 7 (SyntaxNode ''number'' 1 (Some (argument_node 1))))], [])"
  by (simp add: binder_defs example_defs)

end
